theory Spec2Isabelle
  imports Main
begin

section \<open>Decomposition Calculator\<close>

text \<open>
  \<^verbatim>\<open>fft3d_calc.cpp\<close> calls \<^verbatim>\<open>get_starts_counts_3d_decomp (d0, d1, d2, starts, counts,
  comm_size, rank)\<close>, declared in \<^verbatim>\<open>decompose_utils.h\<close>. The header and its
  implementation are not among the sources, so the calculator is written down from the
  specification (section 4.1 and the scenarios A and B of section 8).
\<close>

definition decomp_count :: "nat \<Rightarrow> nat \<Rightarrow> nat \<Rightarrow> nat" where
  \<comment> \<open>Modelled from the spec: the body of \<^verbatim>\<open>get_starts_counts_3d_decomp\<close> is missing.
     Balanced decomposition, remainder distributed to the low-numbered ranks.\<close>
  "decomp_count d0 P r = d0 div P + (if r < d0 mod P then 1 else 0)"

definition decomp_start :: "nat \<Rightarrow> nat \<Rightarrow> nat \<Rightarrow> nat" where
  \<comment> \<open>Modelled from the spec: the body of \<^verbatim>\<open>get_starts_counts_3d_decomp\<close> is missing.
     The start of a rank is the number of rows given to the ranks below it.\<close>
  "decomp_start d0 P r = r * (d0 div P) + min r (d0 mod P)"

definition get_starts_counts_3d_decomp ::
  "nat \<Rightarrow> nat \<Rightarrow> nat \<Rightarrow> nat \<Rightarrow> nat \<Rightarrow> (nat list \<times> nat list) option" where
  \<comment> \<open>Modelled from the spec: the body of \<^verbatim>\<open>get_starts_counts_3d_decomp\<close> is missing.
     The result is the pair of the arrays \<^verbatim>\<open>starts[3]\<close> and \<^verbatim>\<open>counts[3]\<close>; dimensions 1
     and 2 are owned in full. A process group larger than dimension 0 is a configuration
     error (sections 4.1 and 7), the value \<open>None\<close>.\<close>
  "get_starts_counts_3d_decomp d0 d1 d2 comm_size rank =
     (if comm_size > d0 then None
      else Some ([decomp_start d0 comm_size rank, 0, 0],
                 [decomp_count d0 comm_size rank, d1, d2]))"

section \<open>The analysis program \<^verbatim>\<open>fft3d_calc.cpp\<close>\<close>

text \<open>
  The whole program is the function \<^verbatim>\<open>main\<close>. Its effects on the outside world (terminal
  output, the reader and writer engines, the transform library, the process group) are
  recorded as a list of events in program order. What the outside world hands to the
  program is an input of the model: the command line and the process group in a
  configuration record, and one record per call of \<^verbatim>\<open>BeginStep\<close> on the reader.

  Sizes and counters (\<^verbatim>\<open>size_t\<close>, \<^verbatim>\<open>ptrdiff_t\<close>, \<^verbatim>\<open>int\<close>) are natural numbers: they count
  elements of arrays held in memory and ranks of a process group, far below the word
  size, so no operation of the program wraps. A \<^verbatim>\<open>double\<close> is a value of an arbitrary
  type \<open>'a\<close>: the program only copies such values, it never computes with them.
\<close>

datatype StepStatus = OK | NotReady | EndOfStream | OtherError

datatype 'a event =
    Stdout string
  | Stderr string
  | ReportConfigError
  | MPI_Abort
  | MPI_Finalize
  | ReaderOpen string
  | WriterOpen string
  | BeginStep StepStatus
  | Sleep_ms nat
  | SetSelection string "nat list" "nat list"
  | DefineVariable string "nat list" "nat list" "nat list"
  | Get string
  | ReaderEndStep
  | FftwExecute "('a \<times> 'a) list"
  | WriterBeginStep
  | Put string "'a list"
  | WriterEndStep
  | ReaderClose
  | WriterClose
  | FftwFree bool
  | FftwDestroyPlan bool

datatype fault = Aborted | Crashed

datatype outcome = Blocked | Killed fault | Exited int

text \<open>
  The configuration of one process: its command line (\<^verbatim>\<open>argv[0]\<close> included, so that
  \<^verbatim>\<open>argc\<close> is the length), its rank and the size of the communicator \<^verbatim>\<open>comm\<close>, and what
  the transform library and the allocator answer when they are asked on the first step:
  the value \<^verbatim>\<open>fftw_mpi_local_size_3d\<close> returns on this process and on the processes of
  lower rank in \<^verbatim>\<open>MPI_COMM_WORLD\<close> (in rank order), whether the two calls of
  \<^verbatim>\<open>fftw_alloc_complex\<close> succeed, and the contents of fresh, uninitialised memory.
\<close>

record 'a config =
  argv :: "string list"
  rank :: nat
  comm_size :: nat
  fftw_alloc_local :: nat
  lower_alloc_local :: "nat list"
  in_alloc_ok :: bool
  out_alloc_ok :: bool
  uninit :: "nat \<Rightarrow> 'a"

text \<open>
  What one call of \<^verbatim>\<open>BeginStep\<close> delivers: the status and, for a step that is there, the
  shapes of the variables, the data \<^verbatim>\<open>Get\<close> puts into the four vectors, and what the two
  executions of the plan write into cell \<open>i\<close> of \<^verbatim>\<open>out\<close>, given the contents of \<^verbatim>\<open>in\<close>.
\<close>

record 'a step_input =
  read_status :: StepStatus
  shape_u_real :: "nat \<times> nat \<times> nat"
  shape_v_real :: "nat \<times> nat \<times> nat"
  u_real_data :: "'a list"
  u_imag_data :: "'a list"
  v_real_data :: "'a list"
  v_imag_data :: "'a list"
  fftw_result_u :: "('a \<times> 'a) list \<Rightarrow> nat \<Rightarrow> 'a \<times> 'a"
  fftw_result_v :: "('a \<times> 'a) list \<Rightarrow> nat \<Rightarrow> 'a \<times> 'a"

text \<open>
  The variables of \<^verbatim>\<open>main\<close> that are assigned on the first step and live until the end.
\<close>

record 'a workspace =
  alloc_local :: nat
  x_dim :: nat
  x_off :: nat
  in_buf :: "('a \<times> 'a) list"
  out_buf :: "('a \<times> 'a) list"
  u_fft_real :: "'a list"
  u_fft_imag :: "'a list"
  v_fft_real :: "'a list"
  v_fft_imag :: "'a list"

record 'a state =
  step_num :: nat
  firstStep :: bool
  fftw :: "'a workspace option"

definition initial_state :: "'a state" where
  "initial_state = \<lparr>step_num = 0, firstStep = True, fftw = None\<rparr>"

subsection \<open>Command line\<close>

definition nl :: string where
  "nl = [CHR 0x0A]"

function decimal :: "nat \<Rightarrow> string" where
  \<comment> \<open>what \<^verbatim>\<open>printf\<close> with \<^verbatim>\<open>%lu\<close> or \<^verbatim>\<open>%ld\<close>, and \<^verbatim>\<open>operator<<\<close>, print for a number that is
     not negative\<close>
  "decimal n =
     (if n < 10 then [''0123456789'' ! n]
      else decimal (n div 10) @ [''0123456789'' ! (n mod 10)])"
  by pat_completeness auto
termination
  by (relation "measure id") auto

declare decimal.simps [simp del]

definition usage_text :: string where
  "usage_text =
     ''Usage: analysis input_filename output_filename [output_inputdata]'' @ nl
     @ ''  input_filename:   Name of the input file handle for reading data'' @ nl
     @ ''  output_filename:  Name of the output file to which data must be written'' @ nl
     @ ''  output_inputdata: Enter 0 if you want to write the original variables besides the analysis results''
     @ nl @ nl"

definition printUsage :: "'a event list" where
  \<comment> \<open>lines 26 to 33\<close>
  "printUsage = [Stdout usage_text]"

definition output_fft_only_of :: "string list \<Rightarrow> bool" where
  \<comment> \<open>lines 69 to 77\<close>
  "output_fft_only_of args =
     (if length args \<ge> 4 then (if args ! 3 = ''0'' then False else True) else True)"

subsection \<open>Staging\<close>

definition stage_in ::
  "nat \<Rightarrow> nat \<Rightarrow> nat \<Rightarrow> 'a list \<Rightarrow> 'a list \<Rightarrow> ('a \<times> 'a) list \<Rightarrow> ('a \<times> 'a) list" where
  \<comment> \<open>lines 270 to 281 and 295 to 306: the three nested loops that fill \<^verbatim>\<open>in\<close>\<close>
  "stage_in xd d1 d2 re im buf =
     fold (\<lambda>i. fold (\<lambda>j. fold (\<lambda>k b.
             let idx = i * d1 * d2 + j * d2 + k
             in b[idx := (re ! idx, im ! idx)]) [0..<d2]) [0..<d1]) [0..<xd] buf"

definition stage_out ::
  "nat \<Rightarrow> ('a \<times> 'a) list \<Rightarrow> 'a list \<times> 'a list \<Rightarrow> 'a list \<times> 'a list" where
  \<comment> \<open>lines 287 to 291 and 312 to 316: the loop that empties \<^verbatim>\<open>out\<close>\<close>
  "stage_out n out vecs =
     fold (\<lambda>i (re, im). (re[i := fst (out ! i)], im[i := snd (out ! i)])) [0..<n] vecs"

definition slab_indices :: "nat \<Rightarrow> nat \<Rightarrow> nat \<Rightarrow> nat list" where
  \<comment> \<open>the values \<^verbatim>\<open>idx\<close> takes in the three nested loops, in the order of the iterations\<close>
  "slab_indices xd d1 d2 =
     concat (map (\<lambda>i. concat (map (\<lambda>j. map (\<lambda>k. i * d1 * d2 + j * d2 + k) [0..<d2]) [0..<d1]))
       [0..<xd])"

definition fftw_execute :: "(('a \<times> 'a) list \<Rightarrow> nat \<Rightarrow> 'a \<times> 'a) \<Rightarrow> 'a workspace \<Rightarrow> ('a \<times> 'a) list" where
  \<comment> \<open>the plan rewrites every cell of \<^verbatim>\<open>out\<close>\<close>
  "fftw_execute result ws = map (result (in_buf ws)) [0..<length (out_buf ws)]"

definition transform_fields ::
  "'a step_input \<Rightarrow> 'a workspace \<Rightarrow> 'a event list \<times> 'a workspace" where
  \<comment> \<open>lines 268 to 316\<close>
  "transform_fields inp ws =
     (let d1 = fst (snd (shape_u_real inp));
          d2 = snd (snd (shape_u_real inp));
          ws1 = ws\<lparr>in_buf := stage_in (x_dim ws) d1 d2 (u_real_data inp) (u_imag_data inp) (in_buf ws)\<rparr>;
          ws2 = ws1\<lparr>out_buf := fftw_execute (fftw_result_u inp) ws1\<rparr>;
          u = stage_out (alloc_local ws2) (out_buf ws2) (u_fft_real ws2, u_fft_imag ws2);
          ws3 = ws2\<lparr>u_fft_real := fst u, u_fft_imag := snd u\<rparr>;
          ws4 = ws3\<lparr>in_buf := stage_in (x_dim ws3) d1 d2 (v_real_data inp) (v_imag_data inp) (in_buf ws3)\<rparr>;
          ws5 = ws4\<lparr>out_buf := fftw_execute (fftw_result_v inp) ws4\<rparr>;
          v = stage_out (alloc_local ws5) (out_buf ws5) (v_fft_real ws5, v_fft_imag ws5);
          ws6 = ws5\<lparr>v_fft_real := fst v, v_fft_imag := snd v\<rparr>
      in ([FftwExecute (in_buf ws1), FftwExecute (in_buf ws4)], ws6))"

subsection \<open>The first step\<close>

definition mismatch_message :: "nat \<Rightarrow> string" where
  \<comment> \<open>lines 182 and 183, the text written to \<^verbatim>\<open>stderr\<close> with the value of \<^verbatim>\<open>alloc_local\<close>\<close>
  "mismatch_message alloc =
     ''ERROR: fftw local buffer size '' @ decimal alloc
     @ '' != local buffer size determined by decomposition. Exiting.'' @ nl"

definition MPI_Scan_sum :: "nat list \<Rightarrow> nat \<Rightarrow> nat" where
  \<comment> \<open>inclusive prefix sum: the contributions of the lower ranks and the own one\<close>
  "MPI_Scan_sum lower own = sum_list lower + own"

definition define_fft_variables :: "nat \<times> nat \<times> nat \<Rightarrow> nat \<Rightarrow> nat \<Rightarrow> 'a event list" where
  \<comment> \<open>lines 205 to 221\<close>
  "define_fft_variables shape_u xoff alloc =
     (case shape_u of (u0, u1, u2) \<Rightarrow>
       [DefineVariable ''u_fft_real'' [u0 * u1 * u2] [xoff * u1 * u2] [alloc],
        DefineVariable ''u_fft_imag'' [u0 * u1 * u2] [xoff * u1 * u2] [alloc],
        DefineVariable ''v_fft_real'' [u0 * u1 * u2] [xoff * u1 * u2] [alloc],
        DefineVariable ''v_fft_imag'' [u0 * u1 * u2] [xoff * u1 * u2] [alloc]])"

definition define_passthrough_variables ::
  "nat \<times> nat \<times> nat \<Rightarrow> nat \<times> nat \<times> nat \<Rightarrow> nat \<Rightarrow> nat \<Rightarrow> 'a event list" where
  \<comment> \<open>lines 224 to 239\<close>
  "define_passthrough_variables shape_u shape_v xoff xdim =
     (case shape_u of (u0, u1, u2) \<Rightarrow> case shape_v of (v0, v1, v2) \<Rightarrow>
       [DefineVariable ''u_real'' [u0, u1, u2] [xoff, 0, 0] [xdim, u1, u2],
        DefineVariable ''u_imag'' [u0, u1, u2] [xoff, 0, 0] [xdim, u1, u2],
        DefineVariable ''v_real'' [v0, v1, v2] [xoff, 0, 0] [xdim, u1, u2],
        DefineVariable ''v_imag'' [v0, v1, v2] [xoff, 0, 0] [xdim, u1, u2]])"

definition fresh_workspace :: "'a config \<Rightarrow> nat \<Rightarrow> nat \<Rightarrow> nat \<Rightarrow> 'a workspace" where
  \<comment> \<open>lines 176, 177 and 192 to 195: the two buffers of \<^verbatim>\<open>alloc_local\<close> cells and the four
     vectors with room for \<^verbatim>\<open>alloc_local\<close> values, none of them initialised\<close>
  "fresh_workspace cfg alloc xdim xoff =
     \<lparr>alloc_local = alloc, x_dim = xdim, x_off = xoff,
      in_buf = map (\<lambda>i. (uninit cfg i, uninit cfg i)) [0..<alloc],
      out_buf = map (\<lambda>i. (uninit cfg i, uninit cfg i)) [0..<alloc],
      u_fft_real = map (uninit cfg) [0..<alloc],
      u_fft_imag = map (uninit cfg) [0..<alloc],
      v_fft_real = map (uninit cfg) [0..<alloc],
      v_fft_imag = map (uninit cfg) [0..<alloc]\<rparr>"

definition first_step ::
  "'a config \<Rightarrow> bool \<Rightarrow> nat \<times> nat \<times> nat \<Rightarrow> nat \<times> nat \<times> nat
     \<Rightarrow> 'a event list \<times> (fault + 'a workspace)" where
  \<comment> \<open>lines 173 to 240, the body of \<^verbatim>\<open>if (firstStep)\<close>. The call of \<^verbatim>\<open>MPI_Abort\<close> after the
     message of line 182 is commented out in the source, so there is none here. A
     division by zero ends the process.\<close>
  "first_step cfg output_fft_only shape_u shape_v =
     (case shape_u of (u0, u1, u2) \<Rightarrow>
      let alloc = fftw_alloc_local cfg;
          ev_shape = [Stdout (''shape u '' @ decimal u0 @ nl)]
      in if comm_size cfg = 0 then (ev_shape, Inl Crashed)
      else
      let ev_check = (if alloc \<noteq> (u0 * u1 * u2) div comm_size cfg
                      then [Stderr (mismatch_message alloc)] else [])
      in if \<not> in_alloc_ok cfg \<or> \<not> out_alloc_ok cfg
         then (ev_shape @ ev_check
                 @ [Stdout ''FATAL ERROR: Could not allocate memory for fftw arrays. Exiting ..'',
                    MPI_Abort], Inl Aborted)
      else if u1 = 0 \<or> u2 = 0 then (ev_shape @ ev_check, Inl Crashed)
      else
      let xdim = alloc div u1 div u2;
          scan = MPI_Scan_sum (map (\<lambda>a. a div u1 div u2) (lower_alloc_local cfg)) xdim;
          xoff = scan - xdim
      in (ev_shape @ ev_check @ define_fft_variables shape_u xoff alloc
            @ (if \<not> output_fft_only then define_passthrough_variables shape_u shape_v xoff xdim
               else []),
          Inr (fresh_workspace cfg alloc xdim xoff)))"

subsection \<open>One step and the loop\<close>

datatype 'a step_result = Done "'a state" | Fault fault "'a state"

definition write_step :: "bool \<Rightarrow> 'a step_input \<Rightarrow> 'a workspace \<Rightarrow> 'a event list" where
  \<comment> \<open>lines 319 to 330\<close>
  "write_step output_fft_only inp ws =
     [WriterBeginStep,
      Put ''u_fft_real'' (u_fft_real ws), Put ''u_fft_imag'' (u_fft_imag ws),
      Put ''v_fft_real'' (v_fft_real ws), Put ''v_fft_imag'' (v_fft_imag ws)]
     @ (if \<not> output_fft_only
        then [Put ''u_real'' (u_real_data inp), Put ''u_imag'' (u_imag_data inp),
              Put ''v_real'' (v_real_data inp), Put ''v_imag'' (v_imag_data inp)]
        else [])
     @ [WriterEndStep]"

definition set_selections :: "nat list \<times> nat list \<Rightarrow> nat list \<times> nat list \<Rightarrow> 'a event list" where
  \<comment> \<open>lines 158 to 169\<close>
  "set_selections su sv =
     [SetSelection ''u_real'' (fst su) (snd su), SetSelection ''u_imag'' (fst su) (snd su),
      SetSelection ''v_real'' (fst sv) (snd sv), SetSelection ''v_imag'' (fst sv) (snd sv)]"

definition read_step :: "'a event list" where
  \<comment> \<open>lines 260 to 266\<close>
  "read_step = [Get ''u_real'', Get ''u_imag'', Get ''v_real'', Get ''v_imag'', ReaderEndStep]"

definition print_step :: "'a config \<Rightarrow> nat \<Rightarrow> 'a event list" where
  \<comment> \<open>lines 136 and 137\<close>
  "print_step cfg n = (if rank cfg = 0 then [Stdout (''Step: '' @ decimal n @ nl)] else [])"

definition first_or_later ::
  "'a config \<Rightarrow> bool \<Rightarrow> 'a step_input \<Rightarrow> 'a state \<Rightarrow> 'a event list \<times> (fault + 'a workspace)" where
  \<comment> \<open>line 172: the first step creates the workspace, a later one finds it\<close>
  "first_or_later cfg output_fft_only inp st =
     (if firstStep st
      then first_step cfg output_fft_only (shape_u_real inp) (shape_v_real inp)
      else (case fftw st of None \<Rightarrow> ([], Inl Crashed) | Some ws \<Rightarrow> ([], Inr ws)))"

definition decompose ::
  "'a config \<Rightarrow> 'a step_input \<Rightarrow> ((nat list \<times> nat list) \<times> (nat list \<times> nat list)) option" where
  \<comment> \<open>lines 154 and 155: the two calls of the decomposition calculator\<close>
  "decompose cfg inp =
     (case shape_u_real inp of (u0, u1, u2) \<Rightarrow>
        (case shape_v_real inp of (v0, v1, v2) \<Rightarrow>
           (case get_starts_counts_3d_decomp u0 u1 u2 (comm_size cfg) (rank cfg) of
              None \<Rightarrow> None
            | Some su \<Rightarrow>
                (case get_starts_counts_3d_decomp v0 v1 v2 (comm_size cfg) (rank cfg) of
                   None \<Rightarrow> None
                 | Some sv \<Rightarrow> Some (su, sv)))))"

definition process_step ::
  "'a config \<Rightarrow> bool \<Rightarrow> 'a step_input \<Rightarrow> 'a state \<Rightarrow> 'a event list \<times> 'a step_result" where
  \<comment> \<open>lines 135 to 330, one iteration of the loop after \<^verbatim>\<open>BeginStep\<close> has returned OK. A
     process group larger than dimension 0 is reported by the decomposition calculator
     and ends the process group (sections 4.1 and 7 of the specification).\<close>
  "process_step cfg output_fft_only inp st =
     (let st1 = st\<lparr>step_num := step_num st + 1\<rparr>;
          ev_step = print_step cfg (step_num st1)
      in (case decompose cfg inp of
            None \<Rightarrow> (ev_step @ [ReportConfigError, MPI_Abort], Fault Aborted st1)
          | Some (su, sv) \<Rightarrow>
              (case first_or_later cfg output_fft_only inp st1 of
                 (ev_first, Inl f) \<Rightarrow> (ev_step @ set_selections su sv @ ev_first, Fault f st1)
               | (ev_first, Inr ws) \<Rightarrow>
                   (let st2 = st1\<lparr>firstStep := False, fftw := Some ws\<rparr>;
                        tr = transform_fields inp ws;
                        st3 = st2\<lparr>fftw := Some (snd tr)\<rparr>
                    in (ev_step @ set_selections su sv @ ev_first @ read_step @ fst tr
                          @ write_step output_fft_only inp (snd tr),
                        Done st3)))))"

datatype 'a loop_result = Waiting "'a state" | Left "'a state" | Stopped fault "'a state"

fun pipeline_loop ::
  "'a config \<Rightarrow> bool \<Rightarrow> 'a step_input list \<Rightarrow> 'a state \<Rightarrow> 'a event list \<times> 'a loop_result" where
  \<comment> \<open>lines 120 to 331: \<^verbatim>\<open>while (true)\<close>, one equation per call of \<^verbatim>\<open>BeginStep\<close>. When the
     list of answers is used up the process is inside the next call.\<close>
  "pipeline_loop cfg output_fft_only [] st = ([], Waiting st)"
| "pipeline_loop cfg output_fft_only (inp # rest) st =
     (if read_status inp = NotReady then
        (case pipeline_loop cfg output_fft_only rest st of
           (evs, r) \<Rightarrow> (BeginStep NotReady # Sleep_ms 1000 # evs, r))
      else if read_status inp \<noteq> OK then ([BeginStep (read_status inp)], Left st)
      else
        (case process_step cfg output_fft_only inp st of
           (evs, Fault f st') \<Rightarrow> (BeginStep OK # evs, Stopped f st')
         | (evs, Done st') \<Rightarrow>
             (case pipeline_loop cfg output_fft_only rest st' of
                (evs', r) \<Rightarrow> (BeginStep OK # evs @ evs', r))))"

subsection \<open>The program\<close>

definition cleanup :: "'a state \<Rightarrow> 'a event list" where
  \<comment> \<open>lines 334 to 342. The flag of a release tells whether the pointer or the plan was
     ever assigned.\<close>
  "cleanup st =
     [ReaderClose, WriterClose,
      FftwFree (fftw st \<noteq> None), FftwFree (fftw st \<noteq> None), FftwDestroyPlan (fftw st \<noteq> None),
      MPI_Finalize]"

definition main :: "'a config \<Rightarrow> 'a step_input list \<Rightarrow> 'a event list \<times> outcome" where
  "main cfg trace =
     (if length (argv cfg) < 3 then
        ([Stdout (''Not enough arguments'' @ nl)] @ (if rank cfg = 0 then printUsage else [])
           @ [MPI_Abort], Killed Aborted)
      else
        let output_fft_only = output_fft_only_of (argv cfg);
            start = [ReaderOpen (argv cfg ! 1), WriterOpen (argv cfg ! 2)]
        in case pipeline_loop cfg output_fft_only trace initial_state of
             (evs, Waiting st) \<Rightarrow> (start @ evs, Blocked)
           | (evs, Stopped f st) \<Rightarrow> (start @ evs, Killed f)
           | (evs, Left st) \<Rightarrow> (start @ evs @ cleanup st, Exited 0))"

subsection \<open>Reading the events of a run\<close>

fun loop_state :: "'a loop_result \<Rightarrow> 'a state" where
  "loop_state (Waiting st) = st"
| "loop_state (Left st) = st"
| "loop_state (Stopped f st) = st"

fun result_state :: "'a step_result \<Rightarrow> 'a state" where
  "result_state (Done st) = st"
| "result_state (Fault f st) = st"

fun is_sleep :: "'a event \<Rightarrow> bool" where
  "is_sleep (Sleep_ms n) = True"
| "is_sleep _ = False"

fun is_reader_end :: "'a event \<Rightarrow> bool" where
  "is_reader_end ReaderEndStep = True"
| "is_reader_end _ = False"

fun is_writer_end :: "'a event \<Rightarrow> bool" where
  "is_writer_end WriterEndStep = True"
| "is_writer_end _ = False"

fun is_execute :: "'a event \<Rightarrow> bool" where
  "is_execute (FftwExecute b) = True"
| "is_execute _ = False"

fun is_define :: "'a event \<Rightarrow> bool" where
  "is_define (DefineVariable n sh st ct) = True"
| "is_define _ = False"

fun writer_call :: "'a event \<Rightarrow> string list" where
  "writer_call WriterBeginStep = [''BeginStep'']"
| "writer_call (Put n d) = [n]"
| "writer_call WriterEndStep = [''EndStep'']"
| "writer_call _ = []"

definition writer_calls :: "'a event list \<Rightarrow> string list" where
  \<comment> \<open>the calls on the writer engine, in order: the step brackets and the names put\<close>
  "writer_calls evs = concat (map writer_call evs)"

fun is_begin :: "'a event \<Rightarrow> bool" where
  "is_begin (BeginStep s) = True"
| "is_begin _ = False"

fun begin_status :: "'a event \<Rightarrow> StepStatus list" where
  "begin_status (BeginStep s) = [s]"
| "begin_status _ = []"

definition answers :: "'a event list \<Rightarrow> StepStatus list" where
  \<comment> \<open>what the calls of \<^verbatim>\<open>BeginStep\<close> on the reader returned, in order\<close>
  "answers evs = concat (map begin_status evs)"

fun is_not_ready_answer :: "'a event \<Rightarrow> bool" where
  "is_not_ready_answer (BeginStep s) = (s = NotReady)"
| "is_not_ready_answer _ = False"

fun is_backoff_sleep :: "'a event \<Rightarrow> bool" where
  "is_backoff_sleep (Sleep_ms n) = (n = 1000)"
| "is_backoff_sleep _ = False"

fun backoff_ok :: "'a event list \<Rightarrow> bool" where
  \<comment> \<open>every answer NotReady is followed at once by a sleep of 1000 milliseconds and that,
     if anything follows, by the next call of \<^verbatim>\<open>BeginStep\<close>; there is no other sleep\<close>
  "backoff_ok [] = True"
| "backoff_ok (e # es) =
     (if is_not_ready_answer e
      then (case es of
              [] \<Rightarrow> False
            | e' # es' \<Rightarrow>
                is_backoff_sleep e'
                \<and> (case es' of [] \<Rightarrow> True | e'' # es'' \<Rightarrow> is_begin e'')
                \<and> backoff_ok es')
      else \<not> is_sleep e \<and> backoff_ok es)"

fun execute_buffer :: "'a event \<Rightarrow> ('a \<times> 'a) list list" where
  "execute_buffer (FftwExecute b) = [b]"
| "execute_buffer _ = []"

definition executes :: "'a event list \<Rightarrow> ('a \<times> 'a) list list" where
  \<comment> \<open>the contents of \<^verbatim>\<open>in\<close> at the executions of the plan, in order\<close>
  "executes evs = concat (map execute_buffer evs)"




fun defines_name :: "string \<Rightarrow> 'a event \<Rightarrow> bool" where
  "defines_name n (DefineVariable m sh st ct) = (m = n)"
| "defines_name n _ = False"

definition writer_block :: "bool \<Rightarrow> string list" where
  \<comment> \<open>the calls on the writer engine in one step, lines 319 to 330\<close>
  "writer_block f =
     [''BeginStep'', ''u_fft_real'', ''u_fft_imag'', ''v_fft_real'', ''v_fft_imag'']
     @ (if \<not> f then [''u_real'', ''u_imag'', ''v_real'', ''v_imag''] else [])
     @ [''EndStep'']"

definition backoff :: "'b list \<Rightarrow> 'a event list" where
  \<comment> \<open>what the loop does on a run of answers NotReady: lines 124 to 129, once for each\<close>
  "backoff nr = concat (map (\<lambda>_. [BeginStep NotReady, Sleep_ms 1000]) nr)"

definition count_ok :: "'a step_input list \<Rightarrow> nat" where
  "count_ok tr = length (filter (\<lambda>inp. read_status inp = OK) tr)"

subsection \<open>The first step when nothing fails\<close>

definition step_ok :: "'a config \<Rightarrow> 'a step_input \<Rightarrow> bool" where
  \<comment> \<open>the step is read without a configuration error, a division by zero or a failed
     allocation\<close>
  "step_ok cfg inp \<longleftrightarrow>
     0 < comm_size cfg \<and> comm_size cfg \<le> fst (shape_u_real inp)
     \<and> comm_size cfg \<le> fst (shape_v_real inp)
     \<and> 0 < fst (snd (shape_u_real inp)) \<and> 0 < snd (snd (shape_u_real inp))
     \<and> in_alloc_ok cfg \<and> out_alloc_ok cfg"

definition first_step_events_ok ::
  "'a config \<Rightarrow> bool \<Rightarrow> nat \<times> nat \<times> nat \<Rightarrow> nat \<times> nat \<times> nat \<Rightarrow> 'a event list" where
  \<comment> \<open>the events of \<open>first_step\<close> on its last branch\<close>
  "first_step_events_ok cfg f su sv =
     (case su of (u0, u1, u2) \<Rightarrow>
        [Stdout (''shape u '' @ decimal u0 @ nl)]
        @ (if fftw_alloc_local cfg \<noteq> (u0 * u1 * u2) div comm_size cfg
           then [Stderr (mismatch_message (fftw_alloc_local cfg))] else [])
        @ define_fft_variables su
            (sum_list (map (\<lambda>a. a div u1 div u2) (lower_alloc_local cfg))) (fftw_alloc_local cfg)
        @ (if \<not> f
           then define_passthrough_variables su sv
                  (sum_list (map (\<lambda>a. a div u1 div u2) (lower_alloc_local cfg)))
                  (fftw_alloc_local cfg div u1 div u2)
           else []))"

definition first_workspace :: "'a config \<Rightarrow> nat \<times> nat \<times> nat \<Rightarrow> 'a workspace" where
  \<comment> \<open>the workspace of \<open>first_step\<close> on its last branch\<close>
  "first_workspace cfg su =
     (case su of (u0, u1, u2) \<Rightarrow>
        fresh_workspace cfg (fftw_alloc_local cfg) (fftw_alloc_local cfg div u1 div u2)
          (sum_list (map (\<lambda>a. a div u1 div u2) (lower_alloc_local cfg))))"

subsection \<open>Two runs\<close>

text \<open>
  A run of two processes on a field of shape \<open>(4, 2, 2)\<close>, seen from rank 0, without the
  third argument; and a run of four processes on a field of shape \<open>(10, 2, 2)\<close>, seen from
  rank 3, with passthrough. In the second run the transform library gives three rows to
  each of the ranks 0 to 2 and one row to rank 3 (12, 12, 12 and 4 cells), and the
  decomposition calculator gives 3, 3, 2 and 2 rows.
\<close>

definition even_config :: "nat config" where
  "even_config =
     \<lparr>argv = [''analysis'', ''in.bp'', ''out.bp''], rank = 0, comm_size = 2,
      fftw_alloc_local = 8, lower_alloc_local = [], in_alloc_ok = True, out_alloc_ok = True,
      uninit = (\<lambda>_. 0)\<rparr>"

definition even_step :: "StepStatus \<Rightarrow> nat step_input" where
  "even_step s =
     \<lparr>read_status = s, shape_u_real = (4, 2, 2), shape_v_real = (4, 2, 2),
      u_real_data = [10, 11, 12, 13, 14, 15, 16, 17],
      u_imag_data = [20, 21, 22, 23, 24, 25, 26, 27],
      v_real_data = [30, 31, 32, 33, 34, 35, 36, 37],
      v_imag_data = [40, 41, 42, 43, 44, 45, 46, 47],
      fftw_result_u = (\<lambda>b i. b ! i), fftw_result_v = (\<lambda>b i. b ! i)\<rparr>"

definition uneven_config :: "nat config" where
  "uneven_config =
     \<lparr>argv = [''analysis'', ''in.bp'', ''out.bp'', ''0''], rank = 3, comm_size = 4,
      fftw_alloc_local = 4, lower_alloc_local = [12, 12, 12],
      in_alloc_ok = True, out_alloc_ok = True, uninit = (\<lambda>_. 0)\<rparr>"

definition uneven_step :: "StepStatus \<Rightarrow> nat step_input" where
  "uneven_step s =
     \<lparr>read_status = s, shape_u_real = (10, 2, 2), shape_v_real = (10, 2, 2),
      u_real_data = [10, 11, 12, 13, 14, 15, 16, 17],
      u_imag_data = [20, 21, 22, 23, 24, 25, 26, 27],
      v_real_data = [30, 31, 32, 33, 34, 35, 36, 37],
      v_imag_data = [40, 41, 42, 43, 44, 45, 46, 47],
      fftw_result_u = (\<lambda>b i. b ! i), fftw_result_v = (\<lambda>b i. b ! i)\<rparr>"

section \<open>Properties\<close>

lemma decimal_examples: "decimal 0 = ''0''" "decimal 7 = ''7''" "decimal 40 = ''40''"
  by (simp_all add: decimal.simps)

subsection \<open>Properties of the decomposition\<close>

lemma decomp_prefix_sum:
  "(\<Sum>q<r. decomp_count d0 P q) = decomp_start d0 P r"
proof (induction r)
  case 0
  show ?case by (simp add: decomp_start_def)
next
  case (Suc r)
  have "(\<Sum>q<Suc r. decomp_count d0 P q) = decomp_start d0 P r + decomp_count d0 P r"
    using Suc.IH by simp
  also have "\<dots> = decomp_start d0 P (Suc r)"
    by (simp add: decomp_start_def decomp_count_def min_def)
  finally show ?case .
qed

lemma decomp_start_total:
  assumes "0 < P"
  shows "decomp_start d0 P P = d0"
proof -
  have "d0 mod P < P" using assms by simp
  then have "min P (d0 mod P) = d0 mod P" by simp
  then show ?thesis by (simp add: decomp_start_def)
qed

lemma decomp_start_Suc:
  "decomp_start d0 P r + decomp_count d0 P r = decomp_start d0 P (Suc r)"
  by (simp add: decomp_start_def decomp_count_def min_def)

text \<open>
  Claim C1. For a global extent \<open>d0\<close> and a process-group size \<open>P\<close> with \<open>P \<le> d0\<close>, the
  calculator returns for every rank a start and a count along dimension 0 such that the
  counts of all ranks sum to \<open>d0\<close>, the start of a rank is the sum of the counts of the
  ranks below it, every count is the quotient \<open>d0 div P\<close> or one more (and less than one
  away from the exact quotient), and the intervals of consecutive ranks tile \<open>[0, d0)\<close>:
  the first starts at 0, each ends where the next begins, the last ends at \<open>d0\<close>.
\<close>

theorem decomp_tiles:
  assumes "0 < P" and "P \<le> d0"
  shows "(\<forall>r<P. get_starts_counts_3d_decomp d0 d1 d2 P r =
            Some ([decomp_start d0 P r, 0, 0], [decomp_count d0 P r, d1, d2]))
       \<and> (\<Sum>r<P. decomp_count d0 P r) = d0
       \<and> (\<forall>r<P. decomp_start d0 P r = (\<Sum>q<r. decomp_count d0 P q))
       \<and> (\<forall>r<P. d0 div P \<le> decomp_count d0 P r \<and> decomp_count d0 P r \<le> d0 div P + 1
               \<and> decomp_count d0 P r * P < d0 + P \<and> d0 < decomp_count d0 P r * P + P)
       \<and> decomp_start d0 P 0 = 0
       \<and> (\<forall>r. Suc r < P \<longrightarrow>
               decomp_start d0 P r + decomp_count d0 P r = decomp_start d0 P (Suc r))
       \<and> decomp_start d0 P (P - 1) + decomp_count d0 P (P - 1) = d0"
proof -
  have a: "\<forall>r<P. get_starts_counts_3d_decomp d0 d1 d2 P r =
            Some ([decomp_start d0 P r, 0, 0], [decomp_count d0 P r, d1, d2])"
    using assms by (simp add: get_starts_counts_3d_decomp_def)
  have b: "(\<Sum>r<P. decomp_count d0 P r) = d0"
    using assms by (simp add: decomp_prefix_sum decomp_start_total)
  have c: "\<forall>r<P. decomp_start d0 P r = (\<Sum>q<r. decomp_count d0 P q)"
    by (simp add: decomp_prefix_sum)
  have "d0 mod P < P" using assms(1) by simp
  then have q: "P * (d0 div P) \<le> d0" "d0 < P * (d0 div P) + P"
    using mult_div_mod_eq [of P d0] by linarith+
  have m: "d0 mod P > 0 \<Longrightarrow> P * (d0 div P) < d0"
    using mult_div_mod_eq [of P d0] by linarith
  have d: "\<forall>r<P. d0 div P \<le> decomp_count d0 P r \<and> decomp_count d0 P r \<le> d0 div P + 1
               \<and> decomp_count d0 P r * P < d0 + P \<and> d0 < decomp_count d0 P r * P + P"
  proof (intro allI impI)
    fix r assume "r < P"
    show "d0 div P \<le> decomp_count d0 P r \<and> decomp_count d0 P r \<le> d0 div P + 1
               \<and> decomp_count d0 P r * P < d0 + P \<and> d0 < decomp_count d0 P r * P + P"
    proof (cases "r < d0 mod P")
      case True
      then have "d0 mod P > 0" by simp
      then have lt: "P * (d0 div P) < d0" by (rule m)
      have c: "decomp_count d0 P r = d0 div P + 1"
        using True by (simp add: decomp_count_def)
      have e: "(d0 div P + 1) * P = P * (d0 div P) + P" by (simp add: algebra_simps)
      show ?thesis unfolding c e using lt q by linarith
    next
      case False
      have c: "decomp_count d0 P r = d0 div P"
        using False by (simp add: decomp_count_def)
      have e: "(d0 div P) * P = P * (d0 div P)" by (simp add: algebra_simps)
      show ?thesis unfolding c e using q assms(1) by linarith
    qed
  qed
  have e: "decomp_start d0 P 0 = 0"
    by (simp add: decomp_start_def)
  have f: "\<forall>r. Suc r < P \<longrightarrow>
               decomp_start d0 P r + decomp_count d0 P r = decomp_start d0 P (Suc r)"
    by (simp add: decomp_start_Suc)
  have "decomp_start d0 P (P - 1) + decomp_count d0 P (P - 1) = decomp_start d0 P (Suc (P - 1))"
    by (rule decomp_start_Suc)
  then have g: "decomp_start d0 P (P - 1) + decomp_count d0 P (P - 1) = d0"
    using assms(1) by (simp add: decomp_start_total)
  from a b c d e f g show ?thesis by blast
qed

theorem decomp_tiles_witness:
  "get_starts_counts_3d_decomp 9 4 4 2 0 = Some ([0, 0, 0], [5, 4, 4])
   \<and> get_starts_counts_3d_decomp 9 4 4 2 1 = Some ([5, 0, 0], [4, 4, 4])
   \<and> (\<Sum>r<2. decomp_count 9 2 r) = 9
   \<and> decomp_start 9 2 1 + decomp_count 9 2 1 = 9"
  using decomp_tiles [of 2 9 4 4]
  by (simp add: decomp_start_def decomp_count_def)

section \<open>Staging between the fields and the complex buffer\<close>

lemma fold_update_length:
  "length (fold (\<lambda>x b. b[x := v x]) xs buf) = length buf"
  by (induction xs arbitrary: buf) simp_all

lemma fold_update_nth:
  "m < length buf \<Longrightarrow>
   fold (\<lambda>x b. b[x := v x]) xs buf ! m = (if m \<in> set xs then v m else buf ! m)"
proof (induction xs arbitrary: buf)
  case Nil
  show ?case by simp
next
  case (Cons x xs)
  have len: "m < length (buf[x := v x])" using Cons.prems by simp
  show ?case
    using Cons.IH [OF len] Cons.prems by (auto simp: nth_list_update)
qed

lemma blocks_upt:
  "concat (map (\<lambda>j. [c + j * w ..< c + j * w + w]) [0..<n]) = [c ..< c + n * w]"
proof (induction n)
  case 0
  show ?case by simp
next
  case (Suc n)
  have app: "[c ..< c + n * w + w] = [c ..< c + n * w] @ [c + n * w ..< c + n * w + w]"
    by (rule upt_add_eq_append) simp
  have "concat (map (\<lambda>j. [c + j * w ..< c + j * w + w]) [0..<Suc n])
          = concat (map (\<lambda>j. [c + j * w ..< c + j * w + w]) [0..<n]) @ [c + n * w ..< c + n * w + w]"
    by simp
  also have "\<dots> = [c ..< c + n * w + w]"
    by (simp only: Suc.IH app)
  also have "c + n * w + w = c + Suc n * w" by simp
  finally show ?case .
qed

lemma row_upt: "map (\<lambda>k. c + k) [0..<n] = [c ..< c + n]"
  using map_add_upt [of c n] by (simp add: add.commute)

lemma slab_indices_upt: "slab_indices xd d1 d2 = [0 ..< xd * d1 * d2]"
proof -
  have plane: "concat (map (\<lambda>j. map (\<lambda>k. i * d1 * d2 + j * d2 + k) [0..<d2]) [0..<d1])
                 = [i * (d1 * d2) ..< i * (d1 * d2) + d1 * d2]" for i
  proof -
    have "concat (map (\<lambda>j. map (\<lambda>k. i * d1 * d2 + j * d2 + k) [0..<d2]) [0..<d1])
            = concat (map (\<lambda>j. [i * (d1 * d2) + j * d2 ..< i * (d1 * d2) + j * d2 + d2]) [0..<d1])"
      by (simp add: row_upt mult.assoc)
    then show ?thesis by (simp only: blocks_upt)
  qed
  have "slab_indices xd d1 d2 = concat (map (\<lambda>i. [0 + i * (d1 * d2) ..< 0 + i * (d1 * d2) + d1 * d2]) [0..<xd])"
    by (simp add: slab_indices_def plane)
  also have "\<dots> = [0 ..< 0 + xd * (d1 * d2)]"
    by (rule blocks_upt)
  finally show ?thesis by (simp add: mult.assoc)
qed

lemma fold_over_concat: "fold f (concat xss) = fold (fold f) xss"
  by (induction xss) simp_all

lemma stage_in_fold:
  "stage_in xd d1 d2 re im buf =
     fold (\<lambda>x b. b[x := (re ! x, im ! x)]) (slab_indices xd d1 d2) buf"
  by (simp add: stage_in_def slab_indices_def fold_over_concat fold_map comp_def Let_def)


lemma stage_in_nth:
  "m < length buf \<Longrightarrow>
   stage_in xd d1 d2 re im buf ! m = (if m < xd * d1 * d2 then (re ! m, im ! m) else buf ! m)"
  by (simp add: stage_in_fold fold_update_nth slab_indices_upt)

lemma slab_index_less:
  assumes "i < xd" "j < d1" "k < (d2::nat)"
  shows "i * d1 * d2 + j * d2 + k < xd * d1 * d2"
proof -
  have "j * d2 + k < d1 * d2"
  proof -
    have "j * d2 + k < j * d2 + d2" using assms(3) by simp
    also have "\<dots> = Suc j * d2" by simp
    also have "\<dots> \<le> d1 * d2" using assms(2) by (intro mult_le_mono1) simp
    finally show ?thesis .
  qed
  then have "i * d1 * d2 + j * d2 + k < i * (d1 * d2) + d1 * d2" by (simp add: mult.assoc)
  also have "\<dots> = Suc i * (d1 * d2)" by simp
  also have "\<dots> \<le> xd * (d1 * d2)" using assms(1) by (intro mult_le_mono1) simp
  finally show ?thesis by (simp add: mult.assoc)
qed


lemma stage_out_split:
  "fold (\<lambda>i (re, im). (re[i := fst (out ! i)], im[i := snd (out ! i)])) xs (re0, im0)
     = (fold (\<lambda>i r. r[i := fst (out ! i)]) xs re0, fold (\<lambda>i r. r[i := snd (out ! i)]) xs im0)"
  by (induction xs arbitrary: re0 im0) simp_all

lemma stage_out_nth:
  assumes "m < n" "n \<le> length re0" "n \<le> length im0"
  shows "fst (stage_out n out (re0, im0)) ! m = fst (out ! m)"
    and "snd (stage_out n out (re0, im0)) ! m = snd (out ! m)"
  using assms by (simp_all add: stage_out_def stage_out_split fold_update_nth)

lemma stage_out_length:
  "length (fst (stage_out n out (re0, im0))) = length re0"
  "length (snd (stage_out n out (re0, im0))) = length im0"
  by (simp_all add: stage_out_def stage_out_split fold_update_length)


text \<open>
  Claim C5. For fields \<open>f\<close> and \<open>g\<close> over a local slab of extents \<open>(x_dim, d1, d2)\<close> that
  fits the local allocation of \<open>n\<close> cells, staging them into the complex buffer and
  staging the buffer out again gives back \<open>f\<close> and \<open>g\<close> at every index
  \<open>i * d1 * d2 + j * d2 + k\<close> of the slab, \<open>i < x_dim\<close>, \<open>j < d1\<close>, \<open>k < d2\<close>. The values are
  copied, never computed with, so they come back unchanged. The extent the program
  uses, \<open>n div d1 div d2\<close>, fits the allocation (lemma \<open>x_dim_fits\<close>).
\<close>

theorem stage_roundtrip:
  assumes "xd * d1 * d2 \<le> n" and "length buf = n" and "length re0 = n" and "length im0 = n"
      and "i < xd" and "j < d1" and "k < d2"
  shows "fst (stage_out n (stage_in xd d1 d2 f g buf) (re0, im0)) ! (i * d1 * d2 + j * d2 + k)
           = f ! (i * d1 * d2 + j * d2 + k)
       \<and> snd (stage_out n (stage_in xd d1 d2 f g buf) (re0, im0)) ! (i * d1 * d2 + j * d2 + k)
           = g ! (i * d1 * d2 + j * d2 + k)"
proof -
  let ?m = "i * d1 * d2 + j * d2 + k"
  have lt: "?m < xd * d1 * d2" using assms(5-7) by (rule slab_index_less)
  then have mn: "?m < n" using assms(1) by simp
  have "stage_in xd d1 d2 f g buf ! ?m = (f ! ?m, g ! ?m)"
    using lt mn assms(2) by (simp add: stage_in_nth)
  then show ?thesis
    using mn assms(3,4) by (simp add: stage_out_nth)
qed


theorem stage_roundtrip_witness:
  "fst (stage_out 4 (stage_in 2 2 1 [1, 2, 3, 4 :: nat] [5, 6, 7, 8]
          [(0, 0), (0, 0), (0, 0), (0, 0)]) ([0, 0, 0, 0], [0, 0, 0, 0])) ! 3 = 4
   \<and> snd (stage_out 4 (stage_in 2 2 1 [1, 2, 3, 4 :: nat] [5, 6, 7, 8]
          [(0, 0), (0, 0), (0, 0), (0, 0)]) ([0, 0, 0, 0], [0, 0, 0, 0])) ! 3 = 8"
  using stage_roundtrip [of 2 2 1 4 "[(0, 0), (0, 0), (0, 0), (0 :: nat, 0 :: nat)]"
      "[0, 0, 0, 0 :: nat]" "[0, 0, 0, 0 :: nat]" 1 1 0 "[1, 2, 3, 4]" "[5, 6, 7, 8]"]
  by simp

section \<open>The steps of the loop\<close>

lemma process_step_cases [case_names config_error faulted completed]:
  obtains
    "decompose cfg inp = None"
    "process_step cfg f inp st
       = (print_step cfg (step_num st + 1) @ [ReportConfigError, MPI_Abort],
          Fault Aborted (st\<lparr>step_num := step_num st + 1\<rparr>))"
  | su sv evf flt where
    "decompose cfg inp = Some (su, sv)"
    "first_or_later cfg f inp (st\<lparr>step_num := step_num st + 1\<rparr>) = (evf, Inl flt)"
    "process_step cfg f inp st
       = (print_step cfg (step_num st + 1) @ set_selections su sv @ evf,
          Fault flt (st\<lparr>step_num := step_num st + 1\<rparr>))"
  | su sv evf ws where
    "decompose cfg inp = Some (su, sv)"
    "first_or_later cfg f inp (st\<lparr>step_num := step_num st + 1\<rparr>) = (evf, Inr ws)"
    "process_step cfg f inp st
       = (print_step cfg (step_num st + 1) @ set_selections su sv @ evf @ read_step
            @ fst (transform_fields inp ws) @ write_step f inp (snd (transform_fields inp ws)),
          Done (st\<lparr>step_num := step_num st + 1, firstStep := False,
                    fftw := Some (snd (transform_fields inp ws))\<rparr>))"
proof (cases "decompose cfg inp")
  case None
  then show ?thesis using that(1) by (simp add: process_step_def Let_def)
next
  case (Some p)
  obtain su sv where p: "p = (su, sv)" by (cases p)
  obtain evf r where fl: "first_or_later cfg f inp (st\<lparr>step_num := step_num st + 1\<rparr>) = (evf, r)"
    by (cases "first_or_later cfg f inp (st\<lparr>step_num := step_num st + 1\<rparr>)")
  show ?thesis
  proof (cases r)
    case (Inl flt)
    with Some p fl show ?thesis using that(2) [of su sv evf flt]
      by (simp add: process_step_def Let_def)
  next
    case (Inr ws)
    with Some p fl show ?thesis using that(3) [of su sv evf ws]
      by (simp add: process_step_def Let_def)
  qed
qed

lemma first_step_no_sleep: "filter is_sleep (fst (first_step cfg f su sv)) = []"
  by (cases su; cases sv)
     (simp add: first_step_def Let_def define_fft_variables_def define_passthrough_variables_def)

lemma first_or_later_no_sleep: "filter is_sleep (fst (first_or_later cfg f inp st)) = []"
  by (simp add: first_or_later_def first_step_no_sleep split: option.split)

lemma step_parts_no_sleep:
  "filter is_sleep (print_step cfg n) = []"
  "filter is_sleep (set_selections su sv) = []"
  "filter is_sleep read_step = []"
  "filter is_sleep (fst (transform_fields inp ws)) = []"
  "filter is_sleep (write_step f inp ws) = []"
  by (simp_all add: print_step_def set_selections_def read_step_def transform_fields_def
        write_step_def Let_def)

lemma process_step_no_sleep: "filter is_sleep (fst (process_step cfg f inp st)) = []"
proof (cases rule: process_step_cases [of cfg inp f st])
  case config_error
  then show ?thesis by (simp add: step_parts_no_sleep)
next
  case (faulted su sv evf flt)
  have "filter is_sleep evf = []"
    using first_or_later_no_sleep [of cfg f inp "st\<lparr>step_num := step_num st + 1\<rparr>"] faulted(2) by simp
  with faulted show ?thesis by (simp add: step_parts_no_sleep)
next
  case (completed su sv evf ws)
  have "filter is_sleep evf = []"
    using first_or_later_no_sleep [of cfg f inp "st\<lparr>step_num := step_num st + 1\<rparr>"] completed(2) by simp
  with completed show ?thesis by (simp add: step_parts_no_sleep)
qed

lemma process_step_step_num:
  "step_num (result_state (snd (process_step cfg f inp st))) = step_num st + 1"
  by (cases rule: process_step_cases [of cfg inp f st]) simp_all

lemma loop_not_ready:
  assumes "\<forall>inp\<in>set nr. read_status inp = NotReady"
  shows "pipeline_loop cfg f (nr @ tr) st
           = (backoff nr @ fst (pipeline_loop cfg f tr st), snd (pipeline_loop cfg f tr st))"
  using assms by (induction nr) (simp_all add: backoff_def split: prod.split)

lemma loop_ok_unfold:
  assumes "read_status ok = OK"
  shows "pipeline_loop cfg f (ok # rest) st =
           (case process_step cfg f ok st of
              (evs, Fault flt st') \<Rightarrow> (BeginStep OK # evs, Stopped flt st')
            | (evs, Done st') \<Rightarrow>
                (BeginStep OK # evs @ fst (pipeline_loop cfg f rest st'),
                 snd (pipeline_loop cfg f rest st')))"
  using assms by (simp split: prod.split step_result.split)

lemma loop_single_ok:
  assumes "read_status ok = OK"
  shows "fst (pipeline_loop cfg f [ok] st) = BeginStep OK # fst (process_step cfg f ok st)
       \<and> loop_state (snd (pipeline_loop cfg f [ok] st))
            = result_state (snd (process_step cfg f ok st))"
proof (cases "process_step cfg f ok st")
  case (Pair evs r)
  then show ?thesis
    using assms by (cases r) simp_all
qed

lemma backoff_sleeps: "length (filter is_sleep (backoff nr)) = length nr"
  by (induction nr) (simp_all add: backoff_def)

subsection \<open>The events of the parts of a step\<close>

lemma writer_calls_append [simp]: "writer_calls (xs @ ys) = writer_calls xs @ writer_calls ys"
  by (simp add: writer_calls_def)

lemma writer_calls_Cons: "writer_calls (x # xs) = writer_call x @ writer_calls xs"
  by (simp add: writer_calls_def)

lemma writer_calls_Nil [simp]: "writer_calls [] = []"
  by (simp add: writer_calls_def)

lemma answers_append [simp]: "answers (xs @ ys) = answers xs @ answers ys"
  by (simp add: answers_def)

lemma answers_Cons: "answers (x # xs) = begin_status x @ answers xs"
  by (simp add: answers_def)

lemma answers_Nil [simp]: "answers [] = []"
  by (simp add: answers_def)

lemma executes_append [simp]: "executes (xs @ ys) = executes xs @ executes ys"
  by (simp add: executes_def)

lemma executes_Cons: "executes (x # xs) = execute_buffer x @ executes xs"
  by (simp add: executes_def)

lemma executes_Nil [simp]: "executes [] = []"
  by (simp add: executes_def)

lemma define_events:
  "filter is_reader_end (define_fft_variables su xoff alloc) = []"
  "filter is_writer_end (define_fft_variables su xoff alloc) = []"
  "filter is_execute (define_fft_variables su xoff alloc) = []"
  "filter is_begin (define_fft_variables su xoff alloc) = []"
  "writer_calls (define_fft_variables su xoff alloc) = []"
  "executes (define_fft_variables su xoff alloc) = []"
  "filter is_reader_end (define_passthrough_variables su sv xoff xdim) = []"
  "filter is_writer_end (define_passthrough_variables su sv xoff xdim) = []"
  "filter is_execute (define_passthrough_variables su sv xoff xdim) = []"
  "filter is_begin (define_passthrough_variables su sv xoff xdim) = []"
  "writer_calls (define_passthrough_variables su sv xoff xdim) = []"
  "executes (define_passthrough_variables su sv xoff xdim) = []"
  by (simp_all add: define_fft_variables_def define_passthrough_variables_def writer_calls_Cons
        executes_Cons split: prod.split)

lemma first_step_events:
  "filter is_reader_end (fst (first_step cfg f su sv)) = []"
  "filter is_writer_end (fst (first_step cfg f su sv)) = []"
  "filter is_execute (fst (first_step cfg f su sv)) = []"
  "filter is_begin (fst (first_step cfg f su sv)) = []"
  "writer_calls (fst (first_step cfg f su sv)) = []"
  "executes (fst (first_step cfg f su sv)) = []"
  by (simp_all add: first_step_def Let_def define_events writer_calls_Cons executes_Cons
        split: prod.split)

lemma first_or_later_events:
  "filter is_reader_end (fst (first_or_later cfg f inp st)) = []"
  "filter is_writer_end (fst (first_or_later cfg f inp st)) = []"
  "filter is_execute (fst (first_or_later cfg f inp st)) = []"
  "filter is_begin (fst (first_or_later cfg f inp st)) = []"
  "writer_calls (fst (first_or_later cfg f inp st)) = []"
  "executes (fst (first_or_later cfg f inp st)) = []"
  by (simp_all add: first_or_later_def first_step_events split: option.split)

lemma step_parts_events:
  "filter is_reader_end (print_step cfg n) = []"
  "filter is_writer_end (print_step cfg n) = []"
  "filter is_execute (print_step cfg n) = []"
  "filter is_begin (print_step cfg n) = []"
  "writer_calls (print_step cfg n) = []"
  "executes (print_step cfg n) = []"
  "filter is_reader_end (set_selections su sv) = []"
  "filter is_writer_end (set_selections su sv) = []"
  "filter is_execute (set_selections su sv) = []"
  "filter is_begin (set_selections su sv) = []"
  "writer_calls (set_selections su sv) = []"
  "executes (set_selections su sv) = []"
  "length (filter is_reader_end read_step) = 1"
  "filter is_writer_end read_step = []"
  "filter is_execute read_step = []"
  "filter is_begin read_step = []"
  "writer_calls read_step = []"
  "executes read_step = []"
  "filter is_reader_end (write_step f inp ws) = []"
  "length (filter is_writer_end (write_step f inp ws)) = 1"
  "filter is_execute (write_step f inp ws) = []"
  "filter is_begin (write_step f inp ws) = []"
  "writer_calls (write_step f inp ws) = writer_block f"
  "executes (write_step f inp ws) = []"
  by (simp_all add: print_step_def set_selections_def read_step_def write_step_def
        writer_calls_Cons executes_Cons writer_block_def)

lemma transform_fields_events:
  "fst (transform_fields inp ws)
     = [FftwExecute (stage_in (x_dim ws) (fst (snd (shape_u_real inp)))
          (snd (snd (shape_u_real inp))) (u_real_data inp) (u_imag_data inp) (in_buf ws)),
        FftwExecute (stage_in (x_dim ws) (fst (snd (shape_u_real inp)))
          (snd (snd (shape_u_real inp))) (v_real_data inp) (v_imag_data inp)
          (stage_in (x_dim ws) (fst (snd (shape_u_real inp)))
             (snd (snd (shape_u_real inp))) (u_real_data inp) (u_imag_data inp) (in_buf ws)))]"
  by (simp add: transform_fields_def Let_def)


lemma transform_parts_events:
  "filter is_reader_end (fst (transform_fields inp ws)) = []"
  "filter is_writer_end (fst (transform_fields inp ws)) = []"
  "length (filter is_execute (fst (transform_fields inp ws))) = 2"
  "filter is_begin (fst (transform_fields inp ws)) = []"
  "filter is_sleep (fst (transform_fields inp ws)) = []"
  "filter is_define (fst (transform_fields inp ws)) = []"
  "writer_calls (fst (transform_fields inp ws)) = []"
  by (simp_all add: transform_fields_events writer_calls_Cons)

lemma process_step_done_events:
  assumes "process_step cfg f inp st = (evs, Done st')"
  shows "step_num st' = step_num st + 1"
    and "firstStep st' = False"
    and "fftw st' \<noteq> None"
    and "length (filter is_reader_end evs) = 1"
    and "length (filter is_writer_end evs) = 1"
    and "length (filter is_execute evs) = 2"
    and "writer_calls evs = writer_block f"
proof -
  have "step_num st' = step_num st + 1 \<and> firstStep st' = False \<and> fftw st' \<noteq> None
      \<and> length (filter is_reader_end evs) = 1 \<and> length (filter is_writer_end evs) = 1
      \<and> length (filter is_execute evs) = 2 \<and> writer_calls evs = writer_block f"
  proof (cases rule: process_step_cases [of cfg inp f st])
    case config_error
    with assms show ?thesis by simp
  next
    case (faulted su sv evf flt)
    with assms show ?thesis by simp
  next
    case (completed su sv evf ws)
    have evf: "evf = fst (first_or_later cfg f inp (st\<lparr>step_num := step_num st + 1\<rparr>))"
      using completed(2) by simp
    from assms completed(3) have
      evs: "evs = print_step cfg (step_num st + 1) @ set_selections su sv @ evf @ read_step
            @ fst (transform_fields inp ws) @ write_step f inp (snd (transform_fields inp ws))"
      and st': "st' = st\<lparr>step_num := step_num st + 1, firstStep := False,
                    fftw := Some (snd (transform_fields inp ws))\<rparr>"
      by simp_all
    show ?thesis
      by (simp add: evs st' evf step_parts_events transform_parts_events first_or_later_events)
  qed
  then show "step_num st' = step_num st + 1"
    and "firstStep st' = False"
    and "fftw st' \<noteq> None"
    and "length (filter is_reader_end evs) = 1"
    and "length (filter is_writer_end evs) = 1"
    and "length (filter is_execute evs) = 2"
    and "writer_calls evs = writer_block f"
    by simp_all
qed

lemma process_step_fault_events:
  assumes "process_step cfg f inp st = (evs, Fault flt st')"
  shows "filter is_writer_end evs = []" and "writer_calls evs = []"
proof -
  have "filter is_writer_end evs = [] \<and> writer_calls evs = []"
  proof (cases rule: process_step_cases [of cfg inp f st])
    case config_error
    with assms show ?thesis by (auto simp: step_parts_events writer_calls_Cons)
  next
    case (faulted su sv evf flt')
    have evf: "evf = fst (first_or_later cfg f inp (st\<lparr>step_num := step_num st + 1\<rparr>))"
      using faulted(2) by simp
    from assms faulted(3) have
      evs: "evs = print_step cfg (step_num st + 1) @ set_selections su sv @ evf" by simp
    show ?thesis by (simp add: evs evf step_parts_events first_or_later_events)
  next
    case (completed su sv evf ws)
    with assms show ?thesis by simp
  qed
  then show "filter is_writer_end evs = []" and "writer_calls evs = []" by simp_all
qed

lemma loop_Cons_cases [case_names not_ready terminal faulted completed]:
  obtains
    "read_status inp = NotReady"
    "pipeline_loop cfg f (inp # rest) st
       = (BeginStep NotReady # Sleep_ms 1000 # fst (pipeline_loop cfg f rest st),
          snd (pipeline_loop cfg f rest st))"
  | "read_status inp \<noteq> NotReady" "read_status inp \<noteq> OK"
    "pipeline_loop cfg f (inp # rest) st = ([BeginStep (read_status inp)], Left st)"
  | evs flt st' where "read_status inp = OK"
    "process_step cfg f inp st = (evs, Fault flt st')"
    "pipeline_loop cfg f (inp # rest) st = (BeginStep OK # evs, Stopped flt st')"
  | evs st' where "read_status inp = OK"
    "process_step cfg f inp st = (evs, Done st')"
    "pipeline_loop cfg f (inp # rest) st
       = (BeginStep OK # evs @ fst (pipeline_loop cfg f rest st'),
          snd (pipeline_loop cfg f rest st'))"
proof (cases "read_status inp = NotReady")
  case True
  then show ?thesis using that(1) by (simp split: prod.split)
next
  case nr: False
  show ?thesis
  proof (cases "read_status inp = OK")
    case False
    with nr show ?thesis using that(2) by simp
  next
    case True
    obtain evs r where ps: "process_step cfg f inp st = (evs, r)"
      by (cases "process_step cfg f inp st")
    show ?thesis
    proof (cases r)
      case (Done st')
      with True ps show ?thesis using that(4) [of evs st'] by (simp split: prod.split)
    next
      case (Fault flt st')
      with True ps show ?thesis using that(3) [of evs flt st'] by simp
    qed
  qed
qed

lemma loop_waiting_append:
  "pipeline_loop cfg f pre st = (evs, Waiting st') \<Longrightarrow>
   pipeline_loop cfg f (pre @ tr) st
     = (evs @ fst (pipeline_loop cfg f tr st'), snd (pipeline_loop cfg f tr st'))"
proof (induction pre arbitrary: st evs)
  case Nil
  then show ?case by simp
next
  case (Cons inp pre)
  show ?case
  proof (cases rule: loop_Cons_cases [of inp cfg f pre st])
    case not_ready
    obtain e r where l: "pipeline_loop cfg f pre st = (e, r)"
      by (cases "pipeline_loop cfg f pre st")
    with Cons.prems not_ready have r: "r = Waiting st'" and e: "evs = BeginStep NotReady # Sleep_ms 1000 # e"
      by simp_all
    from Cons.IH [OF l [unfolded r]] not_ready(1) e show ?thesis
      by (simp split: prod.split)
  next
    case terminal
    with Cons.prems show ?thesis by simp
  next
    case (faulted e flt s1)
    with Cons.prems show ?thesis by simp
  next
    case (completed e s1)
    obtain e2 r where l: "pipeline_loop cfg f pre s1 = (e2, r)"
      by (cases "pipeline_loop cfg f pre s1")
    with Cons.prems completed have r: "r = Waiting st'" and e: "evs = BeginStep OK # e @ e2"
      by simp_all
    from Cons.IH [OF l [unfolded r]] completed(1,2) e show ?thesis
      by (simp split: prod.split)
  qed
qed

lemma loop_waiting_counts:
  "pipeline_loop cfg f pre st = (evs, Waiting st') \<Longrightarrow>
   step_num st' = step_num st + count_ok pre
   \<and> length (filter is_reader_end evs) = count_ok pre
   \<and> length (filter is_execute evs) = 2 * count_ok pre
   \<and> length (filter is_writer_end evs) = count_ok pre
   \<and> (0 < count_ok pre \<longrightarrow> fftw st' \<noteq> None)
   \<and> (count_ok pre = 0 \<longrightarrow> st' = st)"
proof (induction pre arbitrary: st evs)
  case Nil
  then show ?case by (simp add: count_ok_def)
next
  case (Cons inp pre)
  show ?case
  proof (cases rule: loop_Cons_cases [of inp cfg f pre st])
    case not_ready
    obtain e r where l: "pipeline_loop cfg f pre st = (e, r)"
      by (cases "pipeline_loop cfg f pre st")
    with Cons.prems not_ready have r: "r = Waiting st'" and e: "evs = BeginStep NotReady # Sleep_ms 1000 # e"
      by simp_all
    from Cons.IH [OF l [unfolded r]] not_ready(1) e show ?thesis
      by (simp add: count_ok_def)
  next
    case terminal
    with Cons.prems show ?thesis by simp
  next
    case (faulted e flt s1)
    with Cons.prems show ?thesis by simp
  next
    case (completed e s1)
    obtain e2 r where l: "pipeline_loop cfg f pre s1 = (e2, r)"
      by (cases "pipeline_loop cfg f pre s1")
    with Cons.prems completed have r: "r = Waiting st'" and e: "evs = BeginStep OK # e @ e2"
      by simp_all
    note step = process_step_done_events [OF completed(2)]
    from Cons.IH [OF l [unfolded r]] completed(1) e step show ?thesis
      apply (simp add: count_ok_def)
      apply (auto)
      done
  qed
qed

subsection \<open>Answers, sleeps and the step counter\<close>

lemma process_step_no_begin: "filter is_begin (fst (process_step cfg f inp st)) = []"
proof (cases rule: process_step_cases [of cfg inp f st])
  case config_error
  then show ?thesis by (simp add: step_parts_events)
next
  case (faulted su sv evf flt)
  have "filter is_begin evf = []"
    using first_or_later_events(4) [of cfg f inp "st\<lparr>step_num := step_num st + 1\<rparr>"] faulted(2)
    by simp
  with faulted show ?thesis by (simp add: step_parts_events)
next
  case (completed su sv evf ws)
  have "filter is_begin evf = []"
    using first_or_later_events(4) [of cfg f inp "st\<lparr>step_num := step_num st + 1\<rparr>"] completed(2)
    by simp
  with completed show ?thesis by (simp add: step_parts_events transform_parts_events)
qed

lemma answers_no_begin: "filter is_begin xs = [] \<Longrightarrow> answers xs = []"
proof (induction xs)
  case Nil
  show ?case by simp
next
  case (Cons e xs)
  then show ?case by (cases e) (simp_all add: answers_Cons split: if_splits)
qed

lemma backoff_ok_skip:
  "filter is_sleep xs = [] \<Longrightarrow> filter is_begin xs = [] \<Longrightarrow>
   backoff_ok (xs @ ys) = backoff_ok ys"
proof (induction xs)
  case Nil
  show ?case by simp
next
  case (Cons e xs)
  from Cons.prems have e: "\<not> is_sleep e" "\<not> is_begin e"
    and xs: "filter is_sleep xs = []" "filter is_begin xs = []"
    by (simp_all split: if_splits)
  from e(2) have "\<not> is_not_ready_answer e" by (cases e) simp_all
  with e(1) Cons.IH [OF xs] show ?case by simp
qed

lemma loop_events_head:
  "case fst (pipeline_loop cfg f tr st) of [] \<Rightarrow> True | e # es \<Rightarrow> is_begin e"
proof (cases tr)
  case Nil
  then show ?thesis by simp
next
  case (Cons inp rest)
  show ?thesis
    unfolding Cons
    by (cases rule: loop_Cons_cases [of inp cfg f rest st]) simp_all
qed

lemma loop_backoff:
  "backoff_ok (fst (pipeline_loop cfg f tr st))
   \<and> length (filter is_sleep (fst (pipeline_loop cfg f tr st)))
       = length (filter (\<lambda>s. s = NotReady) (answers (fst (pipeline_loop cfg f tr st))))
   \<and> answers (fst (pipeline_loop cfg f tr st))
       = map read_status (take (length (answers (fst (pipeline_loop cfg f tr st)))) tr)
   \<and> step_num (loop_state (snd (pipeline_loop cfg f tr st)))
       = step_num st
         + length (filter (\<lambda>s. s = OK) (answers (fst (pipeline_loop cfg f tr st))))
   \<and> ((\<exists>s. snd (pipeline_loop cfg f tr st) = Waiting s) \<longrightarrow>
        length (answers (fst (pipeline_loop cfg f tr st))) = length tr)"
proof (induction tr arbitrary: st)
  case Nil
  show ?case by simp
next
  case (Cons inp tr)
  show ?case
  proof (cases rule: loop_Cons_cases [of inp cfg f tr st])
    case not_ready
    note hd = loop_events_head [of cfg f tr st]
    from Cons.IH [of st] not_ready hd show ?thesis
      by (simp add: answers_Cons)
  next
    case terminal
    then show ?thesis by (simp add: answers_Cons)
  next
    case (faulted e flt s1)
    have ns: "filter is_sleep e = []" and nb: "filter is_begin e = []"
      using process_step_no_sleep [of cfg f inp st] process_step_no_begin [of cfg f inp st]
        faulted(2) by simp_all
    have b: "backoff_ok e" using backoff_ok_skip [OF ns nb, of "[]"] by simp
    have s: "step_num s1 = step_num st + 1"
      using process_step_step_num [of cfg f inp st] faulted(2) by simp
    from faulted(1,3) ns b s show ?thesis
      by (simp add: answers_Cons answers_no_begin [OF nb])
  next
    case (completed e s1)
    have ns: "filter is_sleep e = []" and nb: "filter is_begin e = []"
      using process_step_no_sleep [of cfg f inp st] process_step_no_begin [of cfg f inp st]
        completed(2) by simp_all
    have s: "step_num s1 = step_num st + 1"
      using process_step_step_num [of cfg f inp st] completed(2) by simp
    from Cons.IH [of s1] completed(1,3) ns s show ?thesis
      by (simp add: answers_Cons answers_no_begin [OF nb] backoff_ok_skip [OF ns nb])
  qed
qed

subsection \<open>Whole runs\<close>

lemma main_run:
  assumes "3 \<le> length (argv cfg)"
  shows "main cfg tr =
     (case pipeline_loop cfg (output_fft_only_of (argv cfg)) tr initial_state of
        (evs, Waiting st) \<Rightarrow> ([ReaderOpen (argv cfg ! 1), WriterOpen (argv cfg ! 2)] @ evs, Blocked)
      | (evs, Stopped f st) \<Rightarrow> ([ReaderOpen (argv cfg ! 1), WriterOpen (argv cfg ! 2)] @ evs, Killed f)
      | (evs, Left st) \<Rightarrow>
          ([ReaderOpen (argv cfg ! 1), WriterOpen (argv cfg ! 2)] @ evs @ cleanup st, Exited 0))"
  using assms by (simp add: main_def Let_def split: prod.split loop_result.split)

lemma loop_terminal:
  assumes "read_status t \<noteq> OK" and "read_status t \<noteq> NotReady"
  shows "pipeline_loop cfg f (t # rest) st = ([BeginStep (read_status t)], Left st)"
  using assms by simp


lemma loop_writer_calls:
  "writer_calls (fst (pipeline_loop cfg f tr st))
     = concat (replicate (length (filter is_writer_end (fst (pipeline_loop cfg f tr st))))
         (writer_block f))"
proof (induction tr arbitrary: st)
  case Nil
  show ?case by simp
next
  case (Cons inp tr)
  show ?case
  proof (cases rule: loop_Cons_cases [of inp cfg f tr st])
    case not_ready
    then show ?thesis using Cons.IH [of st] by (simp add: writer_calls_Cons)
  next
    case terminal
    then show ?thesis by (simp add: writer_calls_Cons)
  next
    case (faulted e flt s1)
    then show ?thesis by (simp add: writer_calls_Cons process_step_fault_events)
  next
    case (completed e s1)
    then show ?thesis using Cons.IH [of s1]
      by (simp add: writer_calls_Cons process_step_done_events)
  qed
qed

lemma main_writer_calls:
  "writer_calls (fst (main cfg tr))
     = concat (replicate (length (filter is_writer_end (fst (main cfg tr))))
         (writer_block (output_fft_only_of (argv cfg))))"
proof (cases "3 \<le> length (argv cfg)")
  case False
  then show ?thesis
    by (simp add: main_def printUsage_def writer_calls_Cons)
next
  case True
  obtain evs r where l: "pipeline_loop cfg (output_fft_only_of (argv cfg)) tr initial_state = (evs, r)"
    by (cases "pipeline_loop cfg (output_fft_only_of (argv cfg)) tr initial_state")
  have w: "writer_calls evs
     = concat (replicate (length (filter is_writer_end evs))
         (writer_block (output_fft_only_of (argv cfg))))"
    using loop_writer_calls [of cfg "output_fft_only_of (argv cfg)" tr initial_state] l by simp
  show ?thesis
    by (cases r) (simp_all add: main_run [OF True] l w writer_calls_Cons cleanup_def)
qed


lemma first_step_argv: "first_step (cfg\<lparr>argv := a\<rparr>) f su sv = first_step cfg f su sv"
  by (simp add: first_step_def fresh_workspace_def Let_def split: prod.split)

lemma first_or_later_argv:
  "first_or_later (cfg\<lparr>argv := a\<rparr>) f inp st = first_or_later cfg f inp st"
  by (simp add: first_or_later_def first_step_argv)

lemma decompose_argv: "decompose (cfg\<lparr>argv := a\<rparr>) inp = decompose cfg inp"
  by (simp add: decompose_def split: prod.split option.split)

lemma print_step_argv: "print_step (cfg\<lparr>argv := a\<rparr>) n = print_step cfg n"
  by (simp add: print_step_def)

lemma process_step_argv: "process_step (cfg\<lparr>argv := a\<rparr>) f inp st = process_step cfg f inp st"
  by (simp add: process_step_def first_or_later_argv decompose_argv print_step_argv Let_def
        split: option.split prod.split)

lemma pipeline_loop_argv:
  "pipeline_loop (cfg\<lparr>argv := a\<rparr>) f tr st = pipeline_loop cfg f tr st"
  by (induction tr arbitrary: st) (simp_all add: process_step_argv split: prod.split step_result.split)



lemma first_step_done:
  assumes "0 < comm_size cfg" and "in_alloc_ok cfg" and "out_alloc_ok cfg"
      and "0 < fst (snd su)" and "0 < snd (snd su)"
  shows "first_step cfg f su sv = (first_step_events_ok cfg f su sv, Inr (first_workspace cfg su))"
  using assms
  by (cases su)
     (simp add: first_step_def first_step_events_ok_def first_workspace_def Let_def MPI_Scan_sum_def)

lemma decompose_Some:
  assumes "comm_size cfg \<le> fst (shape_u_real inp)" and "comm_size cfg \<le> fst (shape_v_real inp)"
  shows "decompose cfg inp =
           Some (([decomp_start (fst (shape_u_real inp)) (comm_size cfg) (rank cfg), 0, 0],
                  [decomp_count (fst (shape_u_real inp)) (comm_size cfg) (rank cfg),
                   fst (snd (shape_u_real inp)), snd (snd (shape_u_real inp))]),
                 ([decomp_start (fst (shape_v_real inp)) (comm_size cfg) (rank cfg), 0, 0],
                  [decomp_count (fst (shape_v_real inp)) (comm_size cfg) (rank cfg),
                   fst (snd (shape_v_real inp)), snd (snd (shape_v_real inp))]))"
  using assms
  by (cases "shape_u_real inp"; cases "shape_v_real inp")
     (simp add: decompose_def get_starts_counts_3d_decomp_def)

lemma process_step_first:
  assumes "firstStep st" and "step_ok cfg inp"
  shows "\<exists>su sv.
     process_step cfg f inp st
       = (print_step cfg (step_num st + 1) @ set_selections su sv
            @ first_step_events_ok cfg f (shape_u_real inp) (shape_v_real inp) @ read_step
            @ fst (transform_fields inp (first_workspace cfg (shape_u_real inp)))
            @ write_step f inp (snd (transform_fields inp (first_workspace cfg (shape_u_real inp)))),
          Done (st\<lparr>step_num := step_num st + 1, firstStep := False,
                    fftw := Some (snd (transform_fields inp (first_workspace cfg (shape_u_real inp))))\<rparr>))"
proof -
  from assms(2) obtain p where d: "decompose cfg inp = Some p"
    using decompose_Some [of cfg inp] by (simp add: step_ok_def)
  obtain su sv where p: "p = (su, sv)" by (cases p)
  have fs: "first_or_later cfg f inp (st\<lparr>step_num := step_num st + 1\<rparr>)
              = (first_step_events_ok cfg f (shape_u_real inp) (shape_v_real inp),
                 Inr (first_workspace cfg (shape_u_real inp)))"
    using assms by (simp add: first_or_later_def first_step_done step_ok_def)
  have "process_step cfg f inp st
       = (print_step cfg (step_num st + 1) @ set_selections su sv
            @ first_step_events_ok cfg f (shape_u_real inp) (shape_v_real inp) @ read_step
            @ fst (transform_fields inp (first_workspace cfg (shape_u_real inp)))
            @ write_step f inp (snd (transform_fields inp (first_workspace cfg (shape_u_real inp)))),
          Done (st\<lparr>step_num := step_num st + 1, firstStep := False,
                    fftw := Some (snd (transform_fields inp (first_workspace cfg (shape_u_real inp))))\<rparr>))"
    using d p fs by (simp add: process_step_def Let_def)
  then show ?thesis by blast
qed

lemma define_parts:
  "filter is_define (print_step cfg n) = []"
  "filter is_define (set_selections su sv) = []"
  "filter is_define read_step = []"
    "filter is_define (write_step f inp ws) = []"
  "filter is_define (backoff nr) = []"
  "filter is_define (cleanup st) = []"
  by (simp_all add: print_step_def set_selections_def read_step_def
        write_step_def backoff_def cleanup_def)

lemma later_step_no_define:
  assumes "\<not> firstStep st"
  shows "filter is_define (fst (process_step cfg f inp st)) = []"
    and "\<not> firstStep (result_state (snd (process_step cfg f inp st)))"
proof -
  have fl: "fst (first_or_later cfg f inp (st\<lparr>step_num := step_num st + 1\<rparr>)) = []"
    using assms by (simp add: first_or_later_def split: option.split)
  have "filter is_define (fst (process_step cfg f inp st)) = []
      \<and> \<not> firstStep (result_state (snd (process_step cfg f inp st)))"
  proof (cases rule: process_step_cases [of cfg inp f st])
    case config_error
    with assms show ?thesis by (simp add: define_parts transform_parts_events)
  next
    case (faulted su sv evf flt)
    with fl assms show ?thesis by (simp add: define_parts transform_parts_events)
  next
    case (completed su sv evf ws)
    with fl show ?thesis by (simp add: define_parts transform_parts_events)
  qed
  then show "filter is_define (fst (process_step cfg f inp st)) = []"
    and "\<not> firstStep (result_state (snd (process_step cfg f inp st)))" by simp_all
qed

lemma later_loop_no_define:
  "\<not> firstStep st \<Longrightarrow> filter is_define (fst (pipeline_loop cfg f tr st)) = []"
proof (induction tr arbitrary: st)
  case Nil
  show ?case by simp
next
  case (Cons inp tr)
  show ?case
  proof (cases rule: loop_Cons_cases [of inp cfg f tr st])
    case not_ready
    then show ?thesis using Cons.IH [OF Cons.prems] by simp
  next
    case terminal
    then show ?thesis by simp
  next
    case (faulted e flt s1)
    then show ?thesis using later_step_no_define(1) [OF Cons.prems, of cfg f inp] by simp
  next
    case (completed e s1)
    have "\<not> firstStep s1"
      using later_step_no_define(2) [OF Cons.prems, of cfg f inp] completed(2) by simp
    from Cons.IH [OF this] completed show ?thesis
      using later_step_no_define(1) [OF Cons.prems, of cfg f inp] by simp
  qed
qed

lemma first_events_defines:
  "filter is_define (first_step_events_ok cfg f su sv)
     = (case su of (u0, u1, u2) \<Rightarrow>
          define_fft_variables su
            (sum_list (map (\<lambda>a. a div u1 div u2) (lower_alloc_local cfg))) (fftw_alloc_local cfg)
          @ (if \<not> f
             then define_passthrough_variables su sv
                    (sum_list (map (\<lambda>a. a div u1 div u2) (lower_alloc_local cfg)))
                    (fftw_alloc_local cfg div u1 div u2)
             else []))"
  by (cases su; cases sv)
     (simp add: first_step_events_ok_def define_fft_variables_def define_passthrough_variables_def)

lemma main_defines:
  assumes "3 \<le> length (argv cfg)"
  shows "filter is_define (fst (main cfg tr))
           = filter is_define (fst (pipeline_loop cfg (output_fft_only_of (argv cfg)) tr initial_state))"
proof -
  obtain evs r where l: "pipeline_loop cfg (output_fft_only_of (argv cfg)) tr initial_state = (evs, r)"
    by (cases "pipeline_loop cfg (output_fft_only_of (argv cfg)) tr initial_state")
  show ?thesis
    by (cases r) (simp_all add: main_run [OF assms] l define_parts)
qed

lemma run_defines:
  assumes "3 \<le> length (argv cfg)"
      and "\<forall>inp\<in>set nr. read_status inp = NotReady" and "read_status ok = OK"
      and "step_ok cfg ok"
  shows "filter is_define (fst (main cfg (nr @ ok # rest)))
           = filter is_define (first_step_events_ok cfg (output_fft_only_of (argv cfg))
               (shape_u_real ok) (shape_v_real ok))"
proof -
  let ?f = "output_fft_only_of (argv cfg)"
  have fs: "firstStep (initial_state :: 'a state)" by (simp add: initial_state_def)
  from process_step_first [OF fs assms(4), of ?f] obtain su sv evs st' where
    ps: "process_step cfg ?f ok initial_state = (evs, Done st')"
    and evs: "evs = print_step cfg (step_num (initial_state :: 'a state) + 1) @ set_selections su sv
            @ first_step_events_ok cfg ?f (shape_u_real ok) (shape_v_real ok) @ read_step
            @ fst (transform_fields ok (first_workspace cfg (shape_u_real ok)))
            @ write_step ?f ok (snd (transform_fields ok (first_workspace cfg (shape_u_real ok))))"
    by blast
  have nf: "\<not> firstStep st'"
    using process_step_done_events(2) [OF ps] by simp
  have "pipeline_loop cfg ?f (ok # rest) initial_state
          = (BeginStep OK # evs @ fst (pipeline_loop cfg ?f rest st'),
             snd (pipeline_loop cfg ?f rest st'))"
    using assms(3) ps by (simp split: prod.split)
  then have "fst (pipeline_loop cfg ?f (nr @ ok # rest) initial_state)
          = backoff nr @ BeginStep OK # evs @ fst (pipeline_loop cfg ?f rest st')"
    by (simp only: loop_not_ready [OF assms(2)] fst_conv)
  then show ?thesis
    by (simp add: main_defines [OF assms(1)] define_parts transform_parts_events evs later_loop_no_define [OF nf])
qed

lemma defines_name_filter:
  "filter (defines_name n) (filter is_define evs) = filter (defines_name n) evs"
proof (induction evs)
  case Nil
  show ?case by simp
next
  case (Cons e evs)
  then show ?case by (cases e) simp_all
qed



lemma process_step_ok_done:
  assumes "step_ok cfg inp" and "firstStep st \<or> fftw st \<noteq> None"
  shows "\<exists>evs st'. process_step cfg f inp st = (evs, Done st')"
proof (cases "firstStep st")
  case True
  from process_step_first [OF True assms(1), of f] show ?thesis by blast
next
  case False
  with assms(2) obtain ws where ws: "fftw st = Some ws" by auto
  from assms(1) obtain p where d: "decompose cfg inp = Some p"
    using decompose_Some [of cfg inp] by (simp add: step_ok_def)
  obtain su sv where p: "p = (su, sv)" by (cases p)
  have "first_or_later cfg f inp (st\<lparr>step_num := step_num st + 1\<rparr>) = ([], Inr ws)"
    using False ws by (simp add: first_or_later_def)
  with d p show ?thesis by (simp add: process_step_def Let_def)
qed

lemma loop_all_ok:
  assumes "\<forall>inp\<in>set pre. read_status inp = NotReady \<or> (read_status inp = OK \<and> step_ok cfg inp)"
      and "firstStep st \<or> fftw st \<noteq> None"
  shows "\<exists>evs st'. pipeline_loop cfg f pre st = (evs, Waiting st')"
  using assms
proof (induction pre arbitrary: st)
  case Nil
  show ?case by simp
next
  case (Cons inp pre)
  from Cons.prems(1) have rest:
    "\<forall>i\<in>set pre. read_status i = NotReady \<or> (read_status i = OK \<and> step_ok cfg i)"
    by simp
  show ?case
  proof (cases "read_status inp = NotReady")
    case True
    from Cons.IH [OF rest Cons.prems(2)] obtain evs st' where
      "pipeline_loop cfg f pre st = (evs, Waiting st')" by blast
    with True show ?thesis by simp
  next
    case False
    with Cons.prems(1) have ok: "read_status inp = OK" and sok: "step_ok cfg inp" by auto
    from process_step_ok_done [OF sok Cons.prems(2), of f] obtain e s1 where
      ps: "process_step cfg f inp st = (e, Done s1)" by blast
    have "fftw s1 \<noteq> None" using process_step_done_events(3) [OF ps] .
    then have "firstStep s1 \<or> fftw s1 \<noteq> None" by simp
    from Cons.IH [OF rest this] obtain evs st' where
      "pipeline_loop cfg f pre s1 = (evs, Waiting st')" by blast
    with ok ps show ?thesis by simp
  qed
qed

lemma main_after_terminal:
  assumes "3 \<le> length (argv cfg)"
      and "\<forall>inp\<in>set pre. read_status inp = NotReady \<or> (read_status inp = OK \<and> step_ok cfg inp)"
      and "read_status t \<noteq> OK" and "read_status t \<noteq> NotReady"
  shows "main cfg (pre @ t # rest)
           = ([ReaderOpen (argv cfg ! 1), WriterOpen (argv cfg ! 2)]
                @ fst (pipeline_loop cfg (output_fft_only_of (argv cfg)) pre initial_state)
                @ [BeginStep (read_status t), ReaderClose, WriterClose,
                   FftwFree (0 < count_ok pre), FftwFree (0 < count_ok pre),
                   FftwDestroyPlan (0 < count_ok pre), MPI_Finalize],
              Exited 0)
       \<and> (\<exists>st. snd (pipeline_loop cfg (output_fft_only_of (argv cfg)) pre initial_state)
                  = Waiting st \<and> step_num st = count_ok pre)
       \<and> length (filter is_reader_end
            (fst (pipeline_loop cfg (output_fft_only_of (argv cfg)) pre initial_state)))
           = count_ok pre
       \<and> length (filter is_execute
            (fst (pipeline_loop cfg (output_fft_only_of (argv cfg)) pre initial_state)))
           = 2 * count_ok pre
       \<and> length (filter is_writer_end
            (fst (pipeline_loop cfg (output_fft_only_of (argv cfg)) pre initial_state)))
           = count_ok pre"
proof -
  let ?f = "output_fft_only_of (argv cfg)"
  have "firstStep (initial_state :: 'a state) \<or> fftw (initial_state :: 'a state) \<noteq> None"
    by (simp add: initial_state_def)
  from loop_all_ok [OF assms(2) this, of ?f] obtain evs st where
    l: "pipeline_loop cfg ?f pre initial_state = (evs, Waiting st)" by blast
  note counts = loop_waiting_counts [OF l]
  have ws: "fftw st \<noteq> None \<longleftrightarrow> 0 < count_ok pre"
  proof (cases "count_ok pre = 0")
    case True
    with counts have "st = initial_state" by simp
    with True show ?thesis by (simp add: initial_state_def)
  next
    case False
    with counts show ?thesis by simp
  qed
  have "pipeline_loop cfg ?f (pre @ t # rest) initial_state
          = (evs @ [BeginStep (read_status t)], Left st)"
    by (simp only: loop_waiting_append [OF l] loop_terminal [OF assms(3,4)] fst_conv snd_conv)
  then have "main cfg (pre @ t # rest)
           = ([ReaderOpen (argv cfg ! 1), WriterOpen (argv cfg ! 2)] @ evs
                @ [BeginStep (read_status t)] @ cleanup st, Exited 0)"
    by (simp add: main_run [OF assms(1)])
  moreover have "cleanup st = [ReaderClose, WriterClose,
                   FftwFree (0 < count_ok pre), FftwFree (0 < count_ok pre),
                   FftwDestroyPlan (0 < count_ok pre), MPI_Finalize]"
    by (simp only: cleanup_def ws)
  ultimately have a: "main cfg (pre @ t # rest)
           = ([ReaderOpen (argv cfg ! 1), WriterOpen (argv cfg ! 2)] @ evs
                @ [BeginStep (read_status t), ReaderClose, WriterClose,
                   FftwFree (0 < count_ok pre), FftwFree (0 < count_ok pre),
                   FftwDestroyPlan (0 < count_ok pre), MPI_Finalize],
              Exited 0)"
    by simp
  from a counts l show ?thesis by (simp add: initial_state_def)
qed



subsection \<open>Staging in the steps of a run\<close>













lemma even_step_fields [simp]:
  "read_status (even_step s) = s"
  "shape_u_real (even_step s) = (4, 2, 2)"
  "shape_v_real (even_step s) = (4, 2, 2)"
  by (simp_all add: even_step_def)

lemma uneven_step_fields [simp]:
  "read_status (uneven_step s) = s"
  "shape_u_real (uneven_step s) = (10, 2, 2)"
  "shape_v_real (uneven_step s) = (10, 2, 2)"
  by (simp_all add: uneven_step_def)

lemma even_config_fields [simp]:
  "argv even_config = [''analysis'', ''in.bp'', ''out.bp'']"
  "rank even_config = 0" "comm_size even_config = 2"
  "fftw_alloc_local even_config = 8" "lower_alloc_local even_config = []"
  "in_alloc_ok even_config" "out_alloc_ok even_config" "uninit even_config = (\<lambda>_. 0)"
  by (simp_all add: even_config_def)

lemma uneven_config_fields [simp]:
  "argv uneven_config = [''analysis'', ''in.bp'', ''out.bp'', ''0'']"
  "rank uneven_config = 3" "comm_size uneven_config = 4"
  "fftw_alloc_local uneven_config = 4" "lower_alloc_local uneven_config = [12, 12, 12]"
  "in_alloc_ok uneven_config" "out_alloc_ok uneven_config" "uninit uneven_config = (\<lambda>_. 0)"
  by (simp_all add: uneven_config_def)

lemma even_step_ok [simp]: "step_ok even_config (even_step s)"
  by (simp add: step_ok_def)

lemma uneven_step_ok [simp]: "step_ok uneven_config (uneven_step s)"
  by (simp add: step_ok_def)


section \<open>The claims about the run\<close>




text \<open>
  Claim C4. For every sequence of answers of \<^verbatim>\<open>BeginStep\<close>, every state and every
  configuration: each answer NotReady is followed at once by a sleep of 1000 milliseconds
  and then, if the run goes on, by the next call of \<^verbatim>\<open>BeginStep\<close>, and the driver sleeps
  at no other time, so that it has slept once for each answer NotReady; the answers the
  driver has seen are a prefix of the sequence, all of it if the driver is waiting for
  more; and the step counter has advanced by the number of answers OK among those seen,
  so it never advances before an answer OK. In particular, while the answers are
  NotReady the state is unchanged, and after \<open>k\<close> answers NotReady and one answer OK the
  driver has slept exactly \<open>k\<close> times and the step counter is one more than before.
\<close>

theorem not_ready_backoff:
  "backoff_ok (fst (pipeline_loop cfg f tr st))
   \<and> length (filter is_sleep (fst (pipeline_loop cfg f tr st)))
       = length (filter (\<lambda>s. s = NotReady) (answers (fst (pipeline_loop cfg f tr st))))
   \<and> answers (fst (pipeline_loop cfg f tr st))
       = map read_status (take (length (answers (fst (pipeline_loop cfg f tr st)))) tr)
   \<and> step_num (loop_state (snd (pipeline_loop cfg f tr st)))
       = step_num st
         + length (filter (\<lambda>s. s = OK) (answers (fst (pipeline_loop cfg f tr st))))
   \<and> ((\<exists>s. snd (pipeline_loop cfg f tr st) = Waiting s) \<longrightarrow>
        length (answers (fst (pipeline_loop cfg f tr st))) = length tr)
   \<and> ((\<forall>inp\<in>set nr. read_status inp = NotReady) \<and> read_status ok = OK \<longrightarrow>
        pipeline_loop cfg f nr st = (backoff nr, Waiting st)
        \<and> fst (pipeline_loop cfg f (nr @ [ok]) st)
             = backoff nr @ BeginStep OK # fst (process_step cfg f ok st)
        \<and> length (filter is_sleep (fst (pipeline_loop cfg f (nr @ [ok]) st))) = length nr
        \<and> step_num (loop_state (snd (pipeline_loop cfg f (nr @ [ok]) st))) = step_num st + 1)"
proof -
  have particular: "(\<forall>inp\<in>set nr. read_status inp = NotReady) \<and> read_status ok = OK \<longrightarrow>
        pipeline_loop cfg f nr st = (backoff nr, Waiting st)
        \<and> fst (pipeline_loop cfg f (nr @ [ok]) st)
             = backoff nr @ BeginStep OK # fst (process_step cfg f ok st)
        \<and> length (filter is_sleep (fst (pipeline_loop cfg f (nr @ [ok]) st))) = length nr
        \<and> step_num (loop_state (snd (pipeline_loop cfg f (nr @ [ok]) st))) = step_num st + 1"
  proof (intro impI)
    assume h: "(\<forall>inp\<in>set nr. read_status inp = NotReady) \<and> read_status ok = OK"
    then have h1: "\<forall>inp\<in>set nr. read_status inp = NotReady" and h2: "read_status ok = OK"
      by simp_all
    have a: "pipeline_loop cfg f nr st = (backoff nr, Waiting st)"
      using loop_not_ready [OF h1, of cfg f "[]" st] by simp
    note split_run = loop_not_ready [OF h1, of cfg f "[ok]" st]
    note one = loop_single_ok [OF h2, of cfg f st]
    have b: "fst (pipeline_loop cfg f (nr @ [ok]) st)
              = backoff nr @ BeginStep OK # fst (process_step cfg f ok st)"
      by (simp only: split_run fst_conv one [THEN conjunct1])
    have c: "length (filter is_sleep (fst (pipeline_loop cfg f (nr @ [ok]) st))) = length nr"
      by (simp only: b) (simp add: backoff_sleeps process_step_no_sleep)
    have d: "step_num (loop_state (snd (pipeline_loop cfg f (nr @ [ok]) st))) = step_num st + 1"
      by (simp only: split_run snd_conv one [THEN conjunct2] process_step_step_num)
    from a b c d show "pipeline_loop cfg f nr st = (backoff nr, Waiting st)
        \<and> fst (pipeline_loop cfg f (nr @ [ok]) st)
             = backoff nr @ BeginStep OK # fst (process_step cfg f ok st)
        \<and> length (filter is_sleep (fst (pipeline_loop cfg f (nr @ [ok]) st))) = length nr
        \<and> step_num (loop_state (snd (pipeline_loop cfg f (nr @ [ok]) st))) = step_num st + 1"
      by (intro conjI)
  qed
  note general = loop_backoff [of cfg f tr st]
  from general particular show ?thesis by blast
qed

theorem not_ready_backoff_witness:
  "backoff_ok (fst (pipeline_loop even_config True
       [even_step OK, even_step NotReady, even_step OK] initial_state))
   \<and> length (filter is_sleep (fst (pipeline_loop even_config True
       [even_step OK, even_step NotReady, even_step OK] initial_state))) = 1
   \<and> step_num (loop_state (snd (pipeline_loop even_config True
       [even_step OK, even_step NotReady, even_step OK] initial_state))) = 2
   \<and> pipeline_loop even_config True
       [even_step NotReady, even_step NotReady, even_step NotReady] initial_state
     = ([BeginStep NotReady, Sleep_ms 1000, BeginStep NotReady, Sleep_ms 1000,
         BeginStep NotReady, Sleep_ms 1000], Waiting initial_state)
   \<and> length (filter is_sleep (fst (pipeline_loop even_config True
         [even_step NotReady, even_step NotReady, even_step NotReady, even_step OK]
         initial_state))) = 3
   \<and> step_num (loop_state (snd (pipeline_loop even_config True
         [even_step NotReady, even_step NotReady, even_step NotReady, even_step OK]
         initial_state))) = 1"
proof -
  let ?tr = "[even_step OK, even_step NotReady, even_step OK]"
  let ?nr = "[even_step NotReady, even_step NotReady, even_step NotReady]"
  note t = not_ready_backoff [of even_config True ?tr initial_state ?nr "even_step OK"]
  have ok: "\<forall>inp\<in>set ?tr. read_status inp = NotReady
              \<or> (read_status inp = OK \<and> step_ok even_config inp)"
    by simp
  have "firstStep (initial_state :: nat state) \<or> fftw (initial_state :: nat state) \<noteq> None"
    by (simp add: initial_state_def)
  from loop_all_ok [OF ok this, of True] obtain evs st' where
    l: "pipeline_loop even_config True ?tr initial_state = (evs, Waiting st')" by blast
  have w: "\<exists>s. snd (pipeline_loop even_config True ?tr initial_state) = Waiting s"
    using l by simp
  have n: "length (answers (fst (pipeline_loop even_config True ?tr initial_state))) = length ?tr"
    using t [THEN conjunct2, THEN conjunct2, THEN conjunct2, THEN conjunct2, THEN conjunct1,
        rule_format, OF w] .
  have an: "answers (fst (pipeline_loop even_config True ?tr initial_state))
              = [OK, NotReady, OK]"
    using t [THEN conjunct2, THEN conjunct2, THEN conjunct1] by (simp only: n) simp
  have a: "backoff_ok (fst (pipeline_loop even_config True ?tr initial_state))"
    using t [THEN conjunct1] .
  have b: "length (filter is_sleep (fst (pipeline_loop even_config True ?tr initial_state))) = 1"
    using t [THEN conjunct2, THEN conjunct1] by (simp only: an) simp
  have c: "step_num (loop_state (snd (pipeline_loop even_config True ?tr initial_state))) = 2"
    using t [THEN conjunct2, THEN conjunct2, THEN conjunct2, THEN conjunct1]
    by (simp only: an) (simp add: initial_state_def)
  have h: "(\<forall>inp\<in>set ?nr. read_status inp = NotReady) \<and> read_status (even_step OK) = OK"
    by simp
  note p = t [THEN conjunct2, THEN conjunct2, THEN conjunct2, THEN conjunct2, THEN conjunct2,
      rule_format, OF h]
  have d: "pipeline_loop even_config True ?nr initial_state
     = ([BeginStep NotReady, Sleep_ms 1000, BeginStep NotReady, Sleep_ms 1000,
         BeginStep NotReady, Sleep_ms 1000], Waiting initial_state)"
    using p [THEN conjunct1] by (simp only: backoff_def) simp
  have e: "length (filter is_sleep (fst (pipeline_loop even_config True
         (?nr @ [even_step OK]) initial_state))) = 3"
    using p [THEN conjunct2, THEN conjunct2, THEN conjunct1] by (simp only: list.size)
  have g: "step_num (loop_state (snd (pipeline_loop even_config True
         (?nr @ [even_step OK]) initial_state))) = step_num (initial_state :: nat state) + 1"
    using p [THEN conjunct2, THEN conjunct2, THEN conjunct2] .
  have app: "?nr @ [even_step OK]
         = [even_step NotReady, even_step NotReady, even_step NotReady, even_step OK]"
    by simp
  have g': "step_num (loop_state (snd (pipeline_loop even_config True
         [even_step NotReady, even_step NotReady, even_step NotReady, even_step OK]
         initial_state))) = 1"
    using g by (simp only: app) (simp add: initial_state_def)
  have e': "length (filter is_sleep (fst (pipeline_loop even_config True
         [even_step NotReady, even_step NotReady, even_step NotReady, even_step OK]
         initial_state))) = 3"
    using e by (simp only: app)
  from a b c d e' g' show ?thesis by (intro conjI)
qed


lemma run_written_steps:
  assumes "3 \<le> length (argv cfg)"
      and "\<forall>inp\<in>set pre. read_status inp = NotReady \<or> (read_status inp = OK \<and> step_ok cfg inp)"
  shows "length (filter is_writer_end (fst (main cfg pre))) = count_ok pre"
    and "read_status t \<noteq> OK \<Longrightarrow> read_status t \<noteq> NotReady \<Longrightarrow>
         length (filter is_writer_end (fst (main cfg (pre @ t # rest)))) = count_ok pre"
proof -
  let ?f = "output_fft_only_of (argv cfg)"
  have "firstStep (initial_state :: 'a state) \<or> fftw (initial_state :: 'a state) \<noteq> None"
    by (simp add: initial_state_def)
  from loop_all_ok [OF assms(2) this, of ?f] obtain evs st where
    l: "pipeline_loop cfg ?f pre initial_state = (evs, Waiting st)" by blast
  note counts = loop_waiting_counts [OF l]
  show "length (filter is_writer_end (fst (main cfg pre))) = count_ok pre"
    using counts by (simp add: main_run [OF assms(1)] l)
  assume t: "read_status t \<noteq> OK" "read_status t \<noteq> NotReady"
  from main_after_terminal [OF assms t, of rest] counts l
  show "length (filter is_writer_end (fst (main cfg (pre @ t # rest)))) = count_ok pre"
    by simp
qed

lemma run_writer_calls:
  assumes "3 \<le> length (argv cfg)"
      and "\<forall>inp\<in>set pre. read_status inp = NotReady \<or> (read_status inp = OK \<and> step_ok cfg inp)"
  shows "writer_calls (fst (main cfg pre))
           = concat (replicate (count_ok pre) (writer_block (output_fft_only_of (argv cfg))))"
    and "read_status t \<noteq> OK \<Longrightarrow> read_status t \<noteq> NotReady \<Longrightarrow>
         writer_calls (fst (main cfg (pre @ t # rest)))
           = concat (replicate (count_ok pre) (writer_block (output_fft_only_of (argv cfg))))"
proof -
  show "writer_calls (fst (main cfg pre))
           = concat (replicate (count_ok pre) (writer_block (output_fft_only_of (argv cfg))))"
    using main_writer_calls [of cfg pre] run_written_steps(1) [OF assms] by simp
  assume t: "read_status t \<noteq> OK" "read_status t \<noteq> NotReady"
  show "writer_calls (fst (main cfg (pre @ t # rest)))
           = concat (replicate (count_ok pre) (writer_block (output_fft_only_of (argv cfg))))"
    using main_writer_calls [of cfg "pre @ t # rest"] run_written_steps(2) [OF assms t, of rest]
    by simp
qed



text \<open>
  Claim C7. In every run the calls on the writer engine are, step by written step, a
  \<^verbatim>\<open>BeginStep\<close>, one \<^verbatim>\<open>Put\<close> for each of \<^verbatim>\<open>u_fft_real\<close>, \<^verbatim>\<open>u_fft_imag\<close>, \<^verbatim>\<open>v_fft_real\<close> and
  \<^verbatim>\<open>v_fft_imag\<close>, and an \<^verbatim>\<open>EndStep\<close> when there is no third argument: four variables in
  each step; and when the third argument is \<^verbatim>\<open>"0"\<close>, the same with one \<^verbatim>\<open>Put\<close> more for each of
  \<^verbatim>\<open>u_real\<close>, \<^verbatim>\<open>u_imag\<close>, \<^verbatim>\<open>v_real\<close> and \<^verbatim>\<open>v_imag\<close>: eight variables in each step. A step is
  written for every answer OK of the reader whose step is read, also when the run ends
  on a closing answer.
\<close>

theorem puts_per_step:
  "(length (argv cfg) < 4 \<longrightarrow>
      writer_calls (fst (main cfg tr))
        = concat (replicate (length (filter is_writer_end (fst (main cfg tr))))
            [''BeginStep'', ''u_fft_real'', ''u_fft_imag'', ''v_fft_real'', ''v_fft_imag'',
             ''EndStep'']))
   \<and> (4 \<le> length (argv cfg) \<and> argv cfg ! 3 = ''0'' \<longrightarrow>
      writer_calls (fst (main cfg tr))
        = concat (replicate (length (filter is_writer_end (fst (main cfg tr))))
            [''BeginStep'', ''u_fft_real'', ''u_fft_imag'', ''v_fft_real'', ''v_fft_imag'',
             ''u_real'', ''u_imag'', ''v_real'', ''v_imag'', ''EndStep'']))
   \<and> (3 \<le> length (argv cfg)
        \<and> (\<forall>inp\<in>set pre. read_status inp = NotReady
              \<or> (read_status inp = OK \<and> step_ok cfg inp))
      \<longrightarrow>
        length (filter is_writer_end (fst (main cfg pre))) = count_ok pre
        \<and> (read_status t \<noteq> OK \<and> read_status t \<noteq> NotReady \<longrightarrow>
             length (filter is_writer_end (fst (main cfg (pre @ t # rest)))) = count_ok pre))"
proof (intro conjI impI)
  assume "length (argv cfg) < 4"
  then have "output_fft_only_of (argv cfg)" by (simp add: output_fft_only_of_def)
  then show "writer_calls (fst (main cfg tr))
        = concat (replicate (length (filter is_writer_end (fst (main cfg tr))))
            [''BeginStep'', ''u_fft_real'', ''u_fft_imag'', ''v_fft_real'', ''v_fft_imag'',
             ''EndStep''])"
    using main_writer_calls [of cfg tr] by (simp add: writer_block_def)
next
  assume "4 \<le> length (argv cfg) \<and> argv cfg ! 3 = ''0''"
  then have "\<not> output_fft_only_of (argv cfg)" by (simp add: output_fft_only_of_def)
  then show "writer_calls (fst (main cfg tr))
        = concat (replicate (length (filter is_writer_end (fst (main cfg tr))))
            [''BeginStep'', ''u_fft_real'', ''u_fft_imag'', ''v_fft_real'', ''v_fft_imag'',
             ''u_real'', ''u_imag'', ''v_real'', ''v_imag'', ''EndStep''])"
    using main_writer_calls [of cfg tr] by (simp add: writer_block_def)
next
  assume h: "3 \<le> length (argv cfg)
        \<and> (\<forall>inp\<in>set pre. read_status inp = NotReady
              \<or> (read_status inp = OK \<and> step_ok cfg inp))"
  then show "length (filter is_writer_end (fst (main cfg pre))) = count_ok pre"
    using run_written_steps(1) [of cfg pre] by blast
next
  assume h: "3 \<le> length (argv cfg)
        \<and> (\<forall>inp\<in>set pre. read_status inp = NotReady
              \<or> (read_status inp = OK \<and> step_ok cfg inp))"
    and t: "read_status t \<noteq> OK \<and> read_status t \<noteq> NotReady"
  then show "length (filter is_writer_end (fst (main cfg (pre @ t # rest)))) = count_ok pre"
    using run_written_steps(2) [of cfg pre t rest] by blast
qed

theorem puts_per_step_witness:
  "writer_calls (fst (main even_config [even_step OK, even_step NotReady, even_step OK]))
     = [''BeginStep'', ''u_fft_real'', ''u_fft_imag'', ''v_fft_real'', ''v_fft_imag'', ''EndStep'',
        ''BeginStep'', ''u_fft_real'', ''u_fft_imag'', ''v_fft_real'', ''v_fft_imag'', ''EndStep'']
   \<and> writer_calls (fst (main uneven_config [uneven_step OK, uneven_step EndOfStream]))
     = [''BeginStep'', ''u_fft_real'', ''u_fft_imag'', ''v_fft_real'', ''v_fft_imag'',
        ''u_real'', ''u_imag'', ''v_real'', ''v_imag'', ''EndStep'']"
proof -
  let ?pre = "[even_step OK, even_step NotReady, even_step OK]"
  note t = puts_per_step [of even_config ?pre ?pre "even_step EndOfStream" "[]"]
  have h1: "length (argv even_config) < 4" by simp
  have h2: "3 \<le> length (argv even_config)
        \<and> (\<forall>inp\<in>set ?pre. read_status inp = NotReady
              \<or> (read_status inp = OK \<and> step_ok even_config inp))" by simp
  have n: "length (filter is_writer_end (fst (main even_config ?pre))) = 2"
    using t [THEN conjunct2, THEN conjunct2, rule_format, OF h2, THEN conjunct1]
    by (simp add: count_ok_def)
  have a: "writer_calls (fst (main even_config ?pre))
     = [''BeginStep'', ''u_fft_real'', ''u_fft_imag'', ''v_fft_real'', ''v_fft_imag'', ''EndStep'',
        ''BeginStep'', ''u_fft_real'', ''u_fft_imag'', ''v_fft_real'', ''v_fft_imag'', ''EndStep'']"
    using t [THEN conjunct1, rule_format, OF h1] by (simp only: n) (simp add: numeral_2_eq_2)
  let ?upre = "[uneven_step OK]"
  let ?utr = "[uneven_step OK, uneven_step EndOfStream]"
  note u = puts_per_step [of uneven_config ?utr ?upre "uneven_step EndOfStream" "[]"]
  have g1: "4 \<le> length (argv uneven_config) \<and> argv uneven_config ! 3 = ''0''" by simp
  have g2: "3 \<le> length (argv uneven_config)
        \<and> (\<forall>inp\<in>set ?upre. read_status inp = NotReady
              \<or> (read_status inp = OK \<and> step_ok uneven_config inp))" by simp
  have g3: "read_status (uneven_step EndOfStream) \<noteq> OK
        \<and> read_status (uneven_step EndOfStream) \<noteq> NotReady" by simp
  have m: "length (filter is_writer_end (fst (main uneven_config ?utr))) = 1"
    using u [THEN conjunct2, THEN conjunct2, rule_format, OF g2, THEN conjunct2, rule_format, OF g3]
    by (simp add: count_ok_def)
  have b: "writer_calls (fst (main uneven_config ?utr))
     = [''BeginStep'', ''u_fft_real'', ''u_fft_imag'', ''v_fft_real'', ''v_fft_imag'',
        ''u_real'', ''u_imag'', ''v_real'', ''v_imag'', ''EndStep'']"
    using u [THEN conjunct2, THEN conjunct1, rule_format, OF g1] by (simp only: m) simp
  from a b show ?thesis by (intro conjI)
qed


text \<open>
  Claim C10. With a third argument that is not the string \<^verbatim>\<open>"0"\<close> (\<^verbatim>\<open>"1"\<close>, \<^verbatim>\<open>"true"\<close>, the
  empty string, anything else) passthrough stays off, and the whole run, its events and
  its outcome, is the run of the same program with the first three entries of \<^verbatim>\<open>argv\<close>
  only: nothing is reported about the argument. Each written step puts the four
  transform outputs and nothing else.
\<close>

theorem other_third_argument:
  assumes "4 \<le> length (argv cfg)" and "argv cfg ! 3 \<noteq> ''0''"
  shows "output_fft_only_of (argv cfg)
       \<and> main cfg tr = main (cfg\<lparr>argv := take 3 (argv cfg)\<rparr>) tr
       \<and> writer_calls (fst (main cfg tr))
           = concat (replicate (length (filter is_writer_end (fst (main cfg tr))))
               [''BeginStep'', ''u_fft_real'', ''u_fft_imag'', ''v_fft_real'', ''v_fft_imag'',
                ''EndStep''])
       \<and> ((\<forall>inp\<in>set pre. read_status inp = NotReady
              \<or> (read_status inp = OK \<and> step_ok cfg inp))
          \<longrightarrow> length (filter is_writer_end (fst (main cfg pre))) = count_ok pre
              \<and> (read_status t \<noteq> OK \<and> read_status t \<noteq> NotReady \<longrightarrow>
                   length (filter is_writer_end (fst (main cfg (pre @ t # rest))))
                     = count_ok pre))"
proof -
  have three: "3 \<le> length (argv cfg)" using assms(1) by simp
  have a: "output_fft_only_of (argv cfg)"
    using assms by (simp add: output_fft_only_of_def)
  have a': "output_fft_only_of (take 3 (argv cfg))"
    by (simp add: output_fft_only_of_def)
  have b: "main cfg tr = main (cfg\<lparr>argv := take 3 (argv cfg)\<rparr>) tr"
    using assms(1) a a' by (simp add: main_def Let_def pipeline_loop_argv)
  have c: "writer_calls (fst (main cfg tr))
           = concat (replicate (length (filter is_writer_end (fst (main cfg tr))))
               [''BeginStep'', ''u_fft_real'', ''u_fft_imag'', ''v_fft_real'', ''v_fft_imag'',
                ''EndStep''])"
    using main_writer_calls [of cfg tr] a by (simp add: writer_block_def)
  have d: "(\<forall>inp\<in>set pre. read_status inp = NotReady
              \<or> (read_status inp = OK \<and> step_ok cfg inp))
          \<longrightarrow> length (filter is_writer_end (fst (main cfg pre))) = count_ok pre
              \<and> (read_status t \<noteq> OK \<and> read_status t \<noteq> NotReady \<longrightarrow>
                   length (filter is_writer_end (fst (main cfg (pre @ t # rest))))
                     = count_ok pre)"
    using run_written_steps(1) [OF three, of pre] run_written_steps(2) [OF three, of pre t rest]
    by blast
  from a b c d show ?thesis by (intro conjI)
qed

theorem other_third_argument_witness:
  "main (even_config\<lparr>argv := [''analysis'', ''in.bp'', ''out.bp'', ''1'']\<rparr>)
       [even_step OK, even_step EndOfStream]
     = main even_config [even_step OK, even_step EndOfStream]
   \<and> main (even_config\<lparr>argv := [''analysis'', ''in.bp'', ''out.bp'', '''']\<rparr>)
       [even_step OK, even_step EndOfStream]
     = main even_config [even_step OK, even_step EndOfStream]
   \<and> writer_calls (fst (main (even_config\<lparr>argv := [''analysis'', ''in.bp'', ''out.bp'', ''true'']\<rparr>)
       [even_step OK, even_step EndOfStream]))
     = [''BeginStep'', ''u_fft_real'', ''u_fft_imag'', ''v_fft_real'', ''v_fft_imag'', ''EndStep'']"
proof -
  let ?tr = "[even_step OK, even_step EndOfStream]"
  have same: "c\<lparr>argv := take 3 (argv c)\<rparr> = even_config"
    if "c = even_config\<lparr>argv := [''analysis'', ''in.bp'', ''out.bp'', x]\<rparr>" for c x
    using that by (simp add: even_config_def)
  let ?c1 = "even_config\<lparr>argv := [''analysis'', ''in.bp'', ''out.bp'', ''1'']\<rparr>"
  have h1: "4 \<le> length (argv ?c1)" "argv ?c1 ! 3 \<noteq> ''0''" by simp_all
  have a: "main ?c1 ?tr = main even_config ?tr"
    using other_third_argument [OF h1, of ?tr, THEN conjunct2, THEN conjunct1]
    by (simp only: same [OF refl])
  let ?c2 = "even_config\<lparr>argv := [''analysis'', ''in.bp'', ''out.bp'', '''']\<rparr>"
  have h2: "4 \<le> length (argv ?c2)" "argv ?c2 ! 3 \<noteq> ''0''" by simp_all
  have b: "main ?c2 ?tr = main even_config ?tr"
    using other_third_argument [OF h2, of ?tr, THEN conjunct2, THEN conjunct1]
    by (simp only: same [OF refl])
  let ?c3 = "even_config\<lparr>argv := [''analysis'', ''in.bp'', ''out.bp'', ''true'']\<rparr>"
  have h3: "4 \<le> length (argv ?c3)" "argv ?c3 ! 3 \<noteq> ''0''" by simp_all
  note t = other_third_argument [OF h3, of ?tr "[even_step OK]" "even_step EndOfStream" "[]"]
  have ok: "\<forall>inp\<in>set [even_step OK]. read_status inp = NotReady
              \<or> (read_status inp = OK \<and> step_ok ?c3 inp)"
    by (simp add: step_ok_def)
  have fin: "read_status (even_step EndOfStream) \<noteq> OK
      \<and> read_status (even_step EndOfStream) \<noteq> NotReady" by simp
  have n: "length (filter is_writer_end (fst (main ?c3 ([even_step OK] @ even_step EndOfStream # []))))
             = count_ok [even_step OK]"
    using t [THEN conjunct2, THEN conjunct2, THEN conjunct2, THEN mp, OF ok,
        THEN conjunct2, THEN mp, OF fin] by simp
  have n': "length (filter is_writer_end (fst (main ?c3 ?tr))) = 1"
    using n by (simp add: count_ok_def)
  have c: "writer_calls (fst (main ?c3 ?tr))
     = [''BeginStep'', ''u_fft_real'', ''u_fft_imag'', ''v_fft_real'', ''v_fft_imag'', ''EndStep'']"
    using t [THEN conjunct2, THEN conjunct2, THEN conjunct1] by (simp only: n') simp
  from a b c show ?thesis by (intro conjI)
qed


subsection \<open>The definitions of the output variables\<close>

lemma first_step_Inr_events:
  assumes "first_step cfg f su sv = (evf, Inr ws)"
  shows "evf = first_step_events_ok cfg f su sv"
  using assms
  by (cases su)
     (simp add: first_step_def first_step_events_ok_def Let_def MPI_Scan_sum_def split: if_splits)

lemma first_step_Inl_defines:
  assumes "first_step cfg f su sv = (evf, Inl flt)"
  shows "filter is_define evf = []"
  using assms
  by (cases su) (auto simp: first_step_def Let_def split: if_splits)

lemma process_step_first_defines:
  assumes "firstStep st"
  shows "filter is_define (fst (process_step cfg f inp st)) = []
       \<or> filter is_define (fst (process_step cfg f inp st))
           = filter is_define (first_step_events_ok cfg f (shape_u_real inp) (shape_v_real inp))"
proof (cases rule: process_step_cases [of cfg inp f st])
  case config_error
  then show ?thesis by (simp add: define_parts)
next
  case (faulted su sv evf flt)
  from faulted(2) assms have "first_step cfg f (shape_u_real inp) (shape_v_real inp) = (evf, Inl flt)"
    by (simp add: first_or_later_def)
  then have "filter is_define evf = []" by (rule first_step_Inl_defines)
  with faulted(3) show ?thesis by (simp add: define_parts)
next
  case (completed su sv evf ws)
  from completed(2) assms have "first_step cfg f (shape_u_real inp) (shape_v_real inp) = (evf, Inr ws)"
    by (simp add: first_or_later_def)
  then have "evf = first_step_events_ok cfg f (shape_u_real inp) (shape_v_real inp)"
    by (rule first_step_Inr_events)
  with completed(3) show ?thesis by (simp add: define_parts transform_parts_events)
qed

lemma loop_defines:
  "filter is_define (fst (pipeline_loop cfg f tr st)) = []
   \<or> (\<exists>su sv. filter is_define (fst (pipeline_loop cfg f tr st))
                 = filter is_define (first_step_events_ok cfg f su sv))"
proof (induction tr arbitrary: st)
  case Nil
  show ?case by simp
next
  case (Cons inp tr)
  show ?case
  proof (cases "firstStep st")
    case False
    then have "filter is_define (fst (pipeline_loop cfg f (inp # tr) st)) = []"
      by (rule later_loop_no_define)
    then show ?thesis by (rule disjI1)
  next
    case True
    show ?thesis
    proof (cases rule: loop_Cons_cases [of inp cfg f tr st])
      case not_ready
      then show ?thesis using Cons.IH [of st] by simp
    next
      case terminal
      then show ?thesis by simp
    next
      case (faulted e flt s1)
      then have d: "filter is_define (fst (pipeline_loop cfg f (inp # tr) st))
                      = filter is_define (fst (process_step cfg f inp st))" by simp
      show ?thesis
        using process_step_first_defines [OF True, of cfg f inp] unfolding d by blast
    next
      case (completed e s1)
      have "\<not> firstStep s1" using process_step_done_events(2) [OF completed(2)] by simp
      then have "filter is_define (fst (pipeline_loop cfg f tr s1)) = []"
        by (rule later_loop_no_define)
      with completed have d: "filter is_define (fst (pipeline_loop cfg f (inp # tr) st))
                      = filter is_define (fst (process_step cfg f inp st))" by simp
      show ?thesis
        using process_step_first_defines [OF True, of cfg f inp] unfolding d by blast
    qed
  qed
qed

lemma main_defines_cases:
  "filter is_define (fst (main cfg tr)) = []
   \<or> (\<exists>su sv. filter is_define (fst (main cfg tr))
                 = filter is_define
                     (first_step_events_ok cfg (output_fft_only_of (argv cfg)) su sv))"
proof (cases "3 \<le> length (argv cfg)")
  case True
  show ?thesis
    using loop_defines [of cfg "output_fft_only_of (argv cfg)" tr initial_state]
    by (simp only: main_defines [OF True])
next
  case False
  then show ?thesis by (simp add: main_def printUsage_def)
qed

lemma first_events_names:
  "length (filter (defines_name ''u_fft_real'')
     (filter is_define (first_step_events_ok cfg f su sv))) = 1"
  "length (filter (defines_name ''u_fft_imag'')
     (filter is_define (first_step_events_ok cfg f su sv))) = 1"
  "length (filter (defines_name ''v_fft_real'')
     (filter is_define (first_step_events_ok cfg f su sv))) = 1"
  "length (filter (defines_name ''v_fft_imag'')
     (filter is_define (first_step_events_ok cfg f su sv))) = 1"
  by (cases su; cases sv;
      simp add: first_events_defines define_fft_variables_def define_passthrough_variables_def)+


text \<open>
  Claim C8, as stated: each of the four transform outputs is defined exactly once in
  every run. A run whose first answer is the end of the stream defines no variable.
\<close>

theorem fft_variables_defined_once_counterexample:
  "length (filter (defines_name ''u_fft_real'')
      (fst (main even_config [even_step EndOfStream]))) \<noteq> 1"
  by (simp add: main_def cleanup_def)

text \<open>
  Claim C8, amended. In every run each of \<^verbatim>\<open>u_fft_real\<close>, \<^verbatim>\<open>u_fft_imag\<close>, \<^verbatim>\<open>v_fft_real\<close> and
  \<^verbatim>\<open>v_fft_imag\<close> is defined at most once. In a run in which the reader answers OK after
  answers NotReady only, and that first step is read without a fault, each of them is
  defined exactly once in the whole run, as a variable of one dimension with the global
  length \<open>d0 * d1 * d2\<close>, the offset \<open>x_off * d1 * d2\<close> and the extent \<^verbatim>\<open>alloc_local\<close> of this
  process, where \<open>x_off\<close> is the sum of \<open>alloc_local div (d1 * d2)\<close> over the processes of
  lower rank.
\<close>

theorem fft_variables_defined_once:
  "length (filter (defines_name ''u_fft_real'') (fst (main cfg tr))) \<le> 1
   \<and> length (filter (defines_name ''u_fft_imag'') (fst (main cfg tr))) \<le> 1
   \<and> length (filter (defines_name ''v_fft_real'') (fst (main cfg tr))) \<le> 1
   \<and> length (filter (defines_name ''v_fft_imag'') (fst (main cfg tr))) \<le> 1
   \<and> (3 \<le> length (argv cfg) \<and> (\<forall>inp\<in>set nr. read_status inp = NotReady)
        \<and> read_status ok = OK \<and> shape_u_real ok = (d0, d1, d2) \<and> step_ok cfg ok
      \<longrightarrow>
        filter (defines_name ''u_fft_real'') (fst (main cfg (nr @ ok # rest)))
           = [DefineVariable ''u_fft_real'' [d0 * d1 * d2]
                [sum_list (map (\<lambda>a. a div (d1 * d2)) (lower_alloc_local cfg)) * d1 * d2]
                [fftw_alloc_local cfg]]
        \<and> filter (defines_name ''u_fft_imag'') (fst (main cfg (nr @ ok # rest)))
           = [DefineVariable ''u_fft_imag'' [d0 * d1 * d2]
                [sum_list (map (\<lambda>a. a div (d1 * d2)) (lower_alloc_local cfg)) * d1 * d2]
                [fftw_alloc_local cfg]]
        \<and> filter (defines_name ''v_fft_real'') (fst (main cfg (nr @ ok # rest)))
           = [DefineVariable ''v_fft_real'' [d0 * d1 * d2]
                [sum_list (map (\<lambda>a. a div (d1 * d2)) (lower_alloc_local cfg)) * d1 * d2]
                [fftw_alloc_local cfg]]
        \<and> filter (defines_name ''v_fft_imag'') (fst (main cfg (nr @ ok # rest)))
           = [DefineVariable ''v_fft_imag'' [d0 * d1 * d2]
                [sum_list (map (\<lambda>a. a div (d1 * d2)) (lower_alloc_local cfg)) * d1 * d2]
                [fftw_alloc_local cfg]])"
proof -
  have once: "length (filter (defines_name m) (fst (main cfg tr))) \<le> 1"
    if "\<And>su sv. length (filter (defines_name m)
          (filter is_define
             (first_step_events_ok cfg (output_fft_only_of (argv cfg)) su sv))) = 1" for m
  proof -
    have n: "filter (defines_name m) (fst (main cfg tr))
               = filter (defines_name m) (filter is_define (fst (main cfg tr)))"
      by (simp only: defines_name_filter)
    from main_defines_cases [of cfg tr] show ?thesis
    proof
      assume "filter is_define (fst (main cfg tr)) = []"
      then show ?thesis by (simp only: n) simp
    next
      assume "\<exists>su sv. filter is_define (fst (main cfg tr))
                 = filter is_define
                     (first_step_events_ok cfg (output_fft_only_of (argv cfg)) su sv)"
      then obtain su sv where "filter is_define (fst (main cfg tr))
                 = filter is_define
                     (first_step_events_ok cfg (output_fft_only_of (argv cfg)) su sv)"
        by blast
      then show ?thesis using that [of su sv] by (simp only: n)
    qed
  qed
  have a: "length (filter (defines_name ''u_fft_real'') (fst (main cfg tr))) \<le> 1"
    by (rule once [OF first_events_names(1)])
  have b: "length (filter (defines_name ''u_fft_imag'') (fst (main cfg tr))) \<le> 1"
    by (rule once [OF first_events_names(2)])
  have c: "length (filter (defines_name ''v_fft_real'') (fst (main cfg tr))) \<le> 1"
    by (rule once [OF first_events_names(3)])
  have d: "length (filter (defines_name ''v_fft_imag'') (fst (main cfg tr))) \<le> 1"
    by (rule once [OF first_events_names(4)])
  have e: "3 \<le> length (argv cfg) \<and> (\<forall>inp\<in>set nr. read_status inp = NotReady)
        \<and> read_status ok = OK \<and> shape_u_real ok = (d0, d1, d2) \<and> step_ok cfg ok
      \<longrightarrow>
        filter (defines_name ''u_fft_real'') (fst (main cfg (nr @ ok # rest)))
           = [DefineVariable ''u_fft_real'' [d0 * d1 * d2]
                [sum_list (map (\<lambda>a. a div (d1 * d2)) (lower_alloc_local cfg)) * d1 * d2]
                [fftw_alloc_local cfg]]
        \<and> filter (defines_name ''u_fft_imag'') (fst (main cfg (nr @ ok # rest)))
           = [DefineVariable ''u_fft_imag'' [d0 * d1 * d2]
                [sum_list (map (\<lambda>a. a div (d1 * d2)) (lower_alloc_local cfg)) * d1 * d2]
                [fftw_alloc_local cfg]]
        \<and> filter (defines_name ''v_fft_real'') (fst (main cfg (nr @ ok # rest)))
           = [DefineVariable ''v_fft_real'' [d0 * d1 * d2]
                [sum_list (map (\<lambda>a. a div (d1 * d2)) (lower_alloc_local cfg)) * d1 * d2]
                [fftw_alloc_local cfg]]
        \<and> filter (defines_name ''v_fft_imag'') (fst (main cfg (nr @ ok # rest)))
           = [DefineVariable ''v_fft_imag'' [d0 * d1 * d2]
                [sum_list (map (\<lambda>a. a div (d1 * d2)) (lower_alloc_local cfg)) * d1 * d2]
                [fftw_alloc_local cfg]]"
  proof (intro impI)
    assume h: "3 \<le> length (argv cfg) \<and> (\<forall>inp\<in>set nr. read_status inp = NotReady)
        \<and> read_status ok = OK \<and> shape_u_real ok = (d0, d1, d2) \<and> step_ok cfg ok"
    then have h1: "3 \<le> length (argv cfg)" and h2: "\<forall>inp\<in>set nr. read_status inp = NotReady"
      and h3: "read_status ok = OK" and h4: "shape_u_real ok = (d0, d1, d2)"
      and h5: "step_ok cfg ok" by simp_all
    let ?evs = "fst (main cfg (nr @ ok # rest))"
    have df: "filter is_define ?evs
      = define_fft_variables (d0, d1, d2)
            (sum_list (map (\<lambda>a. a div (d1 * d2)) (lower_alloc_local cfg))) (fftw_alloc_local cfg)
          @ (if \<not> output_fft_only_of (argv cfg)
             then define_passthrough_variables (d0, d1, d2) (shape_v_real ok)
                    (sum_list (map (\<lambda>a. a div (d1 * d2)) (lower_alloc_local cfg)))
                    (fftw_alloc_local cfg div (d1 * d2))
             else [])"
      by (simp add: run_defines [OF h1 h2 h3 h5] first_events_defines h4 div_mult2_eq)
    have n: "filter (defines_name m) ?evs = filter (defines_name m) (filter is_define ?evs)" for m
      by (simp only: defines_name_filter)
    show "filter (defines_name ''u_fft_real'') ?evs
           = [DefineVariable ''u_fft_real'' [d0 * d1 * d2]
                [sum_list (map (\<lambda>a. a div (d1 * d2)) (lower_alloc_local cfg)) * d1 * d2]
                [fftw_alloc_local cfg]]
        \<and> filter (defines_name ''u_fft_imag'') ?evs
           = [DefineVariable ''u_fft_imag'' [d0 * d1 * d2]
                [sum_list (map (\<lambda>a. a div (d1 * d2)) (lower_alloc_local cfg)) * d1 * d2]
                [fftw_alloc_local cfg]]
        \<and> filter (defines_name ''v_fft_real'') ?evs
           = [DefineVariable ''v_fft_real'' [d0 * d1 * d2]
                [sum_list (map (\<lambda>a. a div (d1 * d2)) (lower_alloc_local cfg)) * d1 * d2]
                [fftw_alloc_local cfg]]
        \<and> filter (defines_name ''v_fft_imag'') ?evs
           = [DefineVariable ''v_fft_imag'' [d0 * d1 * d2]
                [sum_list (map (\<lambda>a. a div (d1 * d2)) (lower_alloc_local cfg)) * d1 * d2]
                [fftw_alloc_local cfg]]"
      by (cases "shape_v_real ok")
         (simp add: n df define_fft_variables_def define_passthrough_variables_def)
  qed
  from a b c d e show ?thesis by (intro conjI)
qed

theorem fft_variables_defined_once_witness:
  "filter (defines_name ''u_fft_real'')
      (fst (main uneven_config [uneven_step NotReady, uneven_step OK, uneven_step OK]))
     = [DefineVariable ''u_fft_real'' [40] [36] [4]]
   \<and> filter (defines_name ''v_fft_imag'')
      (fst (main uneven_config [uneven_step NotReady, uneven_step OK, uneven_step OK]))
     = [DefineVariable ''v_fft_imag'' [40] [36] [4]]"
proof -
  have h: "3 \<le> length (argv uneven_config)
        \<and> (\<forall>inp\<in>set [uneven_step NotReady]. read_status inp = NotReady)
        \<and> read_status (uneven_step OK) = OK \<and> shape_u_real (uneven_step OK) = (10, 2, 2)
        \<and> step_ok uneven_config (uneven_step OK)" by simp
  note t = fft_variables_defined_once [of uneven_config "[]" "[uneven_step NotReady]"
      "uneven_step OK" 10 2 2 "[uneven_step OK]", THEN conjunct2, THEN conjunct2, THEN conjunct2,
      THEN conjunct2, THEN mp, OF h]
  have app: "[uneven_step NotReady] @ uneven_step OK # [uneven_step OK]
      = [uneven_step NotReady, uneven_step OK, uneven_step OK]" by simp
  have a: "filter (defines_name ''u_fft_real'')
      (fst (main uneven_config [uneven_step NotReady, uneven_step OK, uneven_step OK]))
     = [DefineVariable ''u_fft_real'' [40] [36] [4]]"
    using t [THEN conjunct1] by (simp only: app) simp
  have b: "filter (defines_name ''v_fft_imag'')
      (fst (main uneven_config [uneven_step NotReady, uneven_step OK, uneven_step OK]))
     = [DefineVariable ''v_fft_imag'' [40] [36] [4]]"
    using t [THEN conjunct2, THEN conjunct2, THEN conjunct2] by (simp only: app) simp
  from a b show ?thesis by (intro conjI)
qed


subsection \<open>The run of rank 3 of four processes\<close>

lemma process_step_first_selected:
  assumes "firstStep st" and "step_ok cfg inp" and "decompose cfg inp = Some (su, sv)"
  shows "process_step cfg f inp st
       = (print_step cfg (step_num st + 1) @ set_selections su sv
            @ first_step_events_ok cfg f (shape_u_real inp) (shape_v_real inp) @ read_step
            @ fst (transform_fields inp (first_workspace cfg (shape_u_real inp)))
            @ write_step f inp (snd (transform_fields inp (first_workspace cfg (shape_u_real inp)))),
          Done (st\<lparr>step_num := step_num st + 1, firstStep := False,
                    fftw := Some (snd (transform_fields inp (first_workspace cfg (shape_u_real inp))))\<rparr>))"
proof -
  have fs: "first_or_later cfg f inp (st\<lparr>step_num := step_num st + 1\<rparr>)
              = (first_step_events_ok cfg f (shape_u_real inp) (shape_v_real inp),
                 Inr (first_workspace cfg (shape_u_real inp)))"
    using assms(1,2) by (simp add: first_or_later_def first_step_done step_ok_def)
  show ?thesis
    using assms(3) fs by (simp add: process_step_def Let_def)
qed

lemma uneven_decompose:
  "decompose uneven_config (uneven_step OK)
     = Some (([8, 0, 0], [2, 2, 2]), ([8, 0, 0], [2, 2, 2]))"
  by (simp add: decompose_def get_starts_counts_3d_decomp_def decomp_start_def decomp_count_def)

lemma uneven_first_events:
  "first_step_events_ok uneven_config False (10, 2, 2) (10, 2, 2)
      = [Stdout (''shape u '' @ decimal 10 @ nl), Stderr (mismatch_message 4),
         DefineVariable ''u_fft_real'' [40] [36] [4],
         DefineVariable ''u_fft_imag'' [40] [36] [4],
         DefineVariable ''v_fft_real'' [40] [36] [4],
         DefineVariable ''v_fft_imag'' [40] [36] [4],
         DefineVariable ''u_real'' [10, 2, 2] [9, 0, 0] [1, 2, 2],
         DefineVariable ''u_imag'' [10, 2, 2] [9, 0, 0] [1, 2, 2],
         DefineVariable ''v_real'' [10, 2, 2] [9, 0, 0] [1, 2, 2],
         DefineVariable ''v_imag'' [10, 2, 2] [9, 0, 0] [1, 2, 2]]"
  by (simp add: first_step_events_ok_def define_fft_variables_def define_passthrough_variables_def)

lemma uneven_run:
  "main uneven_config [uneven_step OK, uneven_step EndOfStream]
     = ([ReaderOpen ''in.bp'', WriterOpen ''out.bp'', BeginStep OK]
          @ set_selections ([8, 0, 0], [2, 2, 2]) ([8, 0, 0], [2, 2, 2])
          @ first_step_events_ok uneven_config False (10, 2, 2) (10, 2, 2)
          @ read_step
          @ fst (transform_fields (uneven_step OK) (first_workspace uneven_config (10, 2, 2)))
          @ write_step False (uneven_step OK)
              (snd (transform_fields (uneven_step OK) (first_workspace uneven_config (10, 2, 2))))
          @ [BeginStep EndOfStream, ReaderClose, WriterClose, FftwFree True, FftwFree True,
             FftwDestroyPlan True, MPI_Finalize],
        Exited 0)"
proof -
  have f: "output_fft_only_of (argv uneven_config) = False"
    by (simp add: output_fft_only_of_def)
  have fs: "firstStep (initial_state :: nat state)" by (simp add: initial_state_def)
  note ps = process_step_first_selected [OF fs uneven_step_ok uneven_decompose, of False]
  have l: "fst (pipeline_loop uneven_config False [uneven_step OK] initial_state)
      = BeginStep OK # set_selections ([8, 0, 0], [2, 2, 2]) ([8, 0, 0], [2, 2, 2])
          @ first_step_events_ok uneven_config False (10, 2, 2) (10, 2, 2)
          @ read_step
          @ fst (transform_fields (uneven_step OK) (first_workspace uneven_config (10, 2, 2)))
          @ write_step False (uneven_step OK)
              (snd (transform_fields (uneven_step OK) (first_workspace uneven_config (10, 2, 2))))"
    by (simp add: ps print_step_def)
  have h1: "3 \<le> length (argv uneven_config)" by simp
  have h2: "\<forall>inp\<in>set [uneven_step OK].
      read_status inp = NotReady \<or> (read_status inp = OK \<and> step_ok uneven_config inp)"
    by simp
  have h3: "read_status (uneven_step EndOfStream) \<noteq> OK"
    and h4: "read_status (uneven_step EndOfStream) \<noteq> NotReady" by simp_all
  have c: "count_ok [uneven_step OK] = 1" by (simp add: count_ok_def)
  note m = main_after_terminal [OF h1 h2 h3 h4, of "[]", THEN conjunct1]
  show ?thesis
    using m by (simp only: f l c) simp
qed

text \<open>
  Claim C2 on the code. On rank 3 of four processes, for a field of shape \<open>(10, 2, 2)\<close>,
  the transform library reports 4 cells and \<open>(10 * 2 * 2) div 4\<close> is 10. The program
  writes the message of line 182 to \<^verbatim>\<open>stderr\<close> and goes on: it defines the variables, reads,
  transforms and writes the step, and at the end of the stream returns 0. It never calls
  \<^verbatim>\<open>MPI_Abort\<close>.
\<close>

theorem mismatch_not_fatal:
  "fftw_alloc_local uneven_config \<noteq> (10 * 2 * 2) div comm_size uneven_config
   \<and> snd (main uneven_config [uneven_step OK, uneven_step EndOfStream]) = Exited 0
   \<and> Stderr (mismatch_message 4)
        \<in> set (fst (main uneven_config [uneven_step OK, uneven_step EndOfStream]))
   \<and> MPI_Abort \<notin> set (fst (main uneven_config [uneven_step OK, uneven_step EndOfStream]))
   \<and> writer_calls (fst (main uneven_config [uneven_step OK, uneven_step EndOfStream]))
       = [''BeginStep'', ''u_fft_real'', ''u_fft_imag'', ''v_fft_real'', ''v_fft_imag'',
          ''u_real'', ''u_imag'', ''v_real'', ''v_imag'', ''EndStep'']"
  by (simp add: uneven_run uneven_first_events set_selections_def read_step_def
        transform_fields_events write_step_def writer_calls_Cons)

text \<open>
  Claim C3 on the code. In the same run the decomposition calculator gives rank 3 the
  rows 8 and 9 (start 8, count 2), and the four input variables are selected with them.
  The four mirrored variables are defined with the start 9 and the count 1, which are
  \<^verbatim>\<open>x_off\<close> and \<^verbatim>\<open>x_dim\<close> of the transform library's distribution.
\<close>

theorem passthrough_defined_from_transform:
  "get_starts_counts_3d_decomp 10 2 2 (comm_size uneven_config) (rank uneven_config)
     = Some ([8, 0, 0], [2, 2, 2])
   \<and> SetSelection ''u_real'' [8, 0, 0] [2, 2, 2]
        \<in> set (fst (main uneven_config [uneven_step OK, uneven_step EndOfStream]))
   \<and> filter is_define (fst (main uneven_config [uneven_step OK, uneven_step EndOfStream]))
       = [DefineVariable ''u_fft_real'' [40] [36] [4],
          DefineVariable ''u_fft_imag'' [40] [36] [4],
          DefineVariable ''v_fft_real'' [40] [36] [4],
          DefineVariable ''v_fft_imag'' [40] [36] [4],
          DefineVariable ''u_real'' [10, 2, 2] [9, 0, 0] [1, 2, 2],
          DefineVariable ''u_imag'' [10, 2, 2] [9, 0, 0] [1, 2, 2],
          DefineVariable ''v_real'' [10, 2, 2] [9, 0, 0] [1, 2, 2],
          DefineVariable ''v_imag'' [10, 2, 2] [9, 0, 0] [1, 2, 2]]"
  by (simp add: uneven_run uneven_first_events set_selections_def read_step_def
        transform_fields_events write_step_def get_starts_counts_3d_decomp_def
        decomp_start_def decomp_count_def)


end
